theory Spec2Isabelle
  imports Main "HOL-Library.Word" "HOL-Library.Sublist"
begin

section \<open>JavaScript strings\<close>

text \<open>
  A JavaScript string is a sequence of UTF-16 code units: \<open>s.length\<close>,
  \<open>s.substring\<close>, \<open>s.split\<close> and \<open>s.lastIndexOf\<close> all count code units.
  \<open>new Blob([s]).size\<close> counts something else, the bytes of the UTF-8 encoding
  of \<open>s\<close>. The folder provider measures a file with the second and cuts it with
  the first, so the model keeps both.
\<close>

type_synonym code_unit = "16 word"
type_synonym jsstring = "code_unit list"

definition lit :: "string \<Rightarrow> jsstring" where
  "lit s = map of_char s"

definition is_high_surrogate :: "code_unit \<Rightarrow> bool" where
  "is_high_surrogate u \<longleftrightarrow> 0xD800 \<le> u \<and> u \<le> 0xDBFF"

definition is_low_surrogate :: "code_unit \<Rightarrow> bool" where
  "is_low_surrogate u \<longleftrightarrow> 0xDC00 \<le> u \<and> u \<le> 0xDFFF"

text \<open>
  Bytes of the UTF-8 encoding of one code unit that stands alone: one byte below
  U+0080, two below U+0800, three otherwise (an unpaired surrogate is replaced by
  U+FFFD, three bytes, when the Blob is built).
\<close>

definition bmp_bytes :: "code_unit \<Rightarrow> nat" where
  "bmp_bytes u = (if u < 0x80 then 1 else if u < 0x800 then 2 else 3)"

text \<open>\<open>new Blob([content]).size\<close>: a surrogate pair is one code point of four bytes.\<close>

fun blob_size :: "jsstring \<Rightarrow> nat" where
  "blob_size [] = 0"
| "blob_size [u] = bmp_bytes u"
| "blob_size (u # v # vs) =
     (if is_high_surrogate u \<and> is_low_surrogate v then 4 + blob_size vs
      else bmp_bytes u + blob_size (v # vs))"

text \<open>A number inside a template literal: its decimal digits.\<close>

fun decimal :: "nat \<Rightarrow> string" where
  "decimal n =
     (if n < 10 then [''0123456789'' ! n]
      else decimal (n div 10) @ [''0123456789'' ! (n mod 10)])"

declare decimal.simps [simp del]

text \<open>
  \<open>Math.round(a / b)\<close> for natural numbers \<open>a\<close> and \<open>b\<close>: the nearest integer,
  a half rounded up. The sizes divided here are far below \<open>2 ^ 53\<close> and the divisor
  is 1024, so the floating-point quotient is exact.
\<close>

definition Math_round_div :: "nat \<Rightarrow> nat \<Rightarrow> nat" where
  "Math_round_div a b = (2 * a + b) div (2 * b)"

text \<open>\<open>s.split(sep)\<close> for a separator of one code unit.\<close>

fun split_on :: "'a \<Rightarrow> 'a list \<Rightarrow> 'a list list" where
  "split_on sep [] = [[]]"
| "split_on sep (c # cs) =
     (if c = sep then [] # split_on sep cs
      else (case split_on sep cs of
              [] \<Rightarrow> [[c]]
            | p # ps \<Rightarrow> (c # p) # ps))"

text \<open>\<open>s.lastIndexOf(c)\<close>: the last position of \<open>c\<close>, or \<open>-1\<close>.\<close>

definition lastIndexOf :: "'a list \<Rightarrow> 'a \<Rightarrow> int" where
  "lastIndexOf s c =
     (case filter (\<lambda>i. s ! i = c) [0..<length s] of
        [] \<Rightarrow> - 1
      | i # is \<Rightarrow> int (last (i # is)))"

text \<open>\<open>s.substring(start)\<close>: a negative start counts as 0.\<close>

definition substring_from :: "'a list \<Rightarrow> int \<Rightarrow> 'a list" where
  "substring_from s start = drop (nat start) s"

text \<open>\<open>s.substring(0, n)\<close>: the first \<open>n\<close> code units, all of \<open>s\<close> when it is shorter.\<close>

definition substring_to :: "'a list \<Rightarrow> nat \<Rightarrow> 'a list" where
  "substring_to s n = take n s"

text \<open>
  A caught value: an \<open>Error\<close> object with its message, or any other value with
  what \<open>String(error)\<close> gives for it.
\<close>

datatype thrown = ErrorObject jsstring | OtherValue jsstring

fun error_text :: "thrown \<Rightarrow> jsstring" where
  "error_text (ErrorObject message) = message"
| "error_text (OtherValue as_string) = as_string"

section \<open>The folder context provider\<close>

definition MAX_FILES :: nat where
  "MAX_FILES = 50"

definition MAX_BYTES_PER_FILE :: nat where
  "MAX_BYTES_PER_FILE = 100000"

definition MAX_TOTAL_BYTES :: nat where
  "MAX_TOTAL_BYTES = 2000000"

definition BINARY_EXTENSIONS :: "jsstring list" where
  "BINARY_EXTENSIONS = map lit
     [''.png'', ''.jpg'', ''.jpeg'', ''.gif'', ''.bmp'', ''.ico'', ''.svg'',
      ''.mp4'', ''.avi'', ''.mov'', ''.wmv'', ''.flv'', ''.webm'',
      ''.mp3'', ''.wav'', ''.flac'', ''.aac'', ''.ogg'',
      ''.zip'', ''.rar'', ''.7z'', ''.tar'', ''.gz'',
      ''.exe'', ''.dll'', ''.so'', ''.dylib'',
      ''.pdf'', ''.doc'', ''.docx'', ''.xls'', ''.xlsx'', ''.ppt'', ''.pptx'',
      ''.db'', ''.sqlite'', ''.sqlite3'',
      ''.bin'', ''.dat'', ''.log'']"

definition IGNORE_DIRS :: "jsstring list" where
  "IGNORE_DIRS = map lit
     [''node_modules'', ''.git'', ''.svn'', ''.hg'',
      ''dist'', ''build'', ''out'', ''target'',
      ''.vscode'', ''.idea'', ''.vs'',
      ''coverage'', ''.nyc_output'',
      ''.next'', ''.nuxt'', ''.cache'']"

record ContextItem =
  name :: jsstring
  description :: jsstring
  content :: jsstring

text \<open>
  What the provider calls and does not define: the two URI and string helpers, the
  directory walk and the file read of the IDE. The walk and the read may throw; the
  helpers are taken as total.
\<close>

record env =
  getUriPathBasename :: "jsstring \<Rightarrow> jsstring"
  toLowerCase :: "jsstring \<Rightarrow> jsstring"
  walkDir :: "jsstring \<Rightarrow> thrown + jsstring list"
  readFile :: "jsstring \<Rightarrow> thrown + jsstring"

text \<open>The predicate of \<open>filterFiles\<close>, in the order of its three checks.\<close>

definition keep_file :: "env \<Rightarrow> jsstring \<Rightarrow> bool" where
  "keep_file e uri =
     (let fileName = getUriPathBasename e uri;
          pathParts = split_on (of_char CHR ''/'') uri
      in if list_ex (\<lambda>part. part \<in> set IGNORE_DIRS) pathParts then False
         else
           let extension =
                 toLowerCase e
                   (substring_from fileName (lastIndexOf fileName (of_char CHR ''.'')))
           in if extension \<in> set BINARY_EXTENSIONS then False
              else if prefix (lit ''.'') fileName
                      \<and> \<not> suffix (lit ''.md'') fileName
                      \<and> \<not> suffix (lit ''.txt'') fileName
              then False
              else True)"

definition filterFiles :: "env \<Rightarrow> jsstring list \<Rightarrow> jsstring list" where
  "filterFiles e fileUris = filter (keep_file e) fileUris"

text \<open>
  The provider builds its items at eight places. Each place is one constructor, with
  the values the object literal there is built from; \<open>render\<close> below gives the three
  fields of the literal.
\<close>

datatype emitted =
    NoFilesFound
  | FilesLimitReached
  | Truncated jsstring jsstring
  | SizeLimitReached
  | FullFile jsstring jsstring
  | ReadError jsstring thrown
  | FolderSummary jsstring nat nat
  | TopLevelError thrown

definition truncation_notice :: jsstring where
  "truncation_notice =
     lit (CHR 0x0A # CHR 0x0A # ''[Content truncated due to size limit]'')"

fun render :: "env \<Rightarrow> emitted \<Rightarrow> ContextItem" where
  "render e NoFilesFound =
     \<lparr>name = lit ''No Files Found'',
      description = lit ''No text files found in the selected folder'',
      content = lit (''The selected folder contains no readable text files or ''
                     @ ''all files were filtered out due to size/type restrictions.'')\<rparr>"
| "render e FilesLimitReached =
     \<lparr>name = lit ''Files Limit Reached'',
      description = lit (''Only showing first '' @ decimal MAX_FILES @ '' files''),
      content = lit (''Maximum file limit of '' @ decimal MAX_FILES
                     @ '' reached. Additional files were not included.'')\<rparr>"
| "render e (Truncated fileUri text) =
     \<lparr>name = getUriPathBasename e fileUri,
      description = lit (''File too large (''
                         @ decimal (Math_round_div (blob_size text) 1024)
                         @ ''KB) - content truncated''),
      content = substring_to text MAX_BYTES_PER_FILE @ truncation_notice\<rparr>"
| "render e SizeLimitReached =
     \<lparr>name = lit ''Size Limit Reached'',
      description = lit (''Total content size limit reached (''
                         @ decimal (Math_round_div MAX_TOTAL_BYTES 1024) @ ''KB)''),
      content = lit (''Maximum total content size of ''
                     @ decimal (Math_round_div MAX_TOTAL_BYTES 1024)
                     @ ''KB reached. Additional files were not included.'')\<rparr>"
| "render e (FullFile fileUri text) =
     \<lparr>name = getUriPathBasename e fileUri,
      description = fileUri,
      content = text\<rparr>"
| "render e (ReadError fileUri err) =
     \<lparr>name = getUriPathBasename e fileUri,
      description = lit ''Error reading file: '' @ fileUri,
      content = lit ''[Error reading file: '' @ error_text err @ lit '']''\<rparr>"
| "render e (FolderSummary selectedFolderUri processed bytes) =
     \<lparr>name = lit ''Folder Summary'',
      description = lit ''Contents of '' @ getUriPathBasename e selectedFolderUri,
      content = lit (''Loaded '' @ decimal processed @ '' files (''
                     @ decimal (Math_round_div bytes 1024)
                     @ ''KB total) from the selected folder.'')\<rparr>"
| "render e (TopLevelError err) =
     \<lparr>name = lit ''Error'',
      description = lit ''Failed to load folder contents'',
      content = lit ''Error loading folder contents: '' @ error_text err\<rparr>"

text \<open>The three variables the \<open>for\<close> loop of \<open>getContextItems\<close> updates.\<close>

record loop_state =
  contextItems :: "emitted list"
  totalBytes :: nat
  processedFiles :: nat

definition push :: "emitted \<Rightarrow> loop_state \<Rightarrow> loop_state" where
  "push item st = st\<lparr>contextItems := contextItems st @ [item]\<rparr>"

text \<open>
  The loop over the filtered files. A \<open>break\<close> returns the state, a \<open>continue\<close>
  and the end of the body go on with the rest of the list. The \<open>catch\<close> of the body
  is the \<open>Inl\<close> branch of the read.
\<close>

fun read_files :: "env \<Rightarrow> jsstring list \<Rightarrow> loop_state \<Rightarrow> loop_state" where
  "read_files e [] st = st"
| "read_files e (fileUri # rest) st =
     (if processedFiles st \<ge> MAX_FILES then push FilesLimitReached st
      else
        (case readFile e fileUri of
           Inl err \<Rightarrow> read_files e rest (push (ReadError fileUri err) st)
         | Inr text \<Rightarrow>
             let contentBytes = blob_size text
             in if contentBytes > MAX_BYTES_PER_FILE
                then read_files e rest
                       ((push (Truncated fileUri text) st)
                          \<lparr>processedFiles := processedFiles st + 1\<rparr>)
                else if totalBytes st + contentBytes > MAX_TOTAL_BYTES
                then push SizeLimitReached st
                else read_files e rest
                       ((push (FullFile fileUri text) st)
                          \<lparr>totalBytes := totalBytes st + contentBytes,
                           processedFiles := processedFiles st + 1\<rparr>)))"

definition initial_state :: loop_state where
  "initial_state = \<lparr>contextItems = [], totalBytes = 0, processedFiles = 0\<rparr>"

text \<open>
  \<open>getContextItems\<close> before rendering: the empty query, the outer \<open>catch\<close> (the
  walk is the one call in the \<open>try\<close> block that can throw here), the empty
  filtered list, and the loop with the summary put in front.
\<close>

definition getContextItems_emitted :: "env \<Rightarrow> jsstring \<Rightarrow> emitted list" where
  "getContextItems_emitted e query =
     (let selectedFolderUri = query
      in if selectedFolderUri = [] then []
         else
           (case walkDir e selectedFolderUri of
              Inl err \<Rightarrow> [TopLevelError err]
            | Inr fileUris \<Rightarrow>
                let filteredFiles = filterFiles e fileUris
                in if length filteredFiles = 0 then [NoFilesFound]
                   else
                     let st = read_files e filteredFiles initial_state
                     in if length (contextItems st) > 0
                        then FolderSummary selectedFolderUri (processedFiles st) (totalBytes st)
                               # contextItems st
                        else contextItems st))"

definition getContextItems :: "env \<Rightarrow> jsstring \<Rightarrow> ContextItem list" where
  "getContextItems e query = map (render e) (getContextItems_emitted e query)"

section \<open>Measures on the emitted items\<close>

text \<open>
  The claims count items by the place that built them and add up the sizes of the
  files included in full. \<open>full_bytes\<close> is what an item adds to \<open>totalBytes\<close>,
  \<open>is_content\<close> holds of the two kinds of item that carry a file's text, and
  \<open>emit_for\<close> is the item a file gives when the loop reaches neither limit.
\<close>

fun full_bytes :: "emitted \<Rightarrow> nat" where
  "full_bytes (FullFile fileUri text) = blob_size text"
| "full_bytes _ = 0"

fun is_content :: "emitted \<Rightarrow> bool" where
  "is_content (FullFile fileUri text) = True"
| "is_content (Truncated fileUri text) = True"
| "is_content _ = False"

definition full_total :: "emitted list \<Rightarrow> nat" where
  "full_total items = sum_list (map full_bytes items)"

definition content_count :: "emitted list \<Rightarrow> nat" where
  "content_count items = length (filter is_content items)"

definition marker_count :: "emitted \<Rightarrow> emitted list \<Rightarrow> nat" where
  "marker_count m items = length (filter (\<lambda>x. x = m) items)"

definition emit_for :: "env \<Rightarrow> jsstring \<Rightarrow> emitted" where
  "emit_for e fileUri =
     (case readFile e fileUri of
        Inl err \<Rightarrow> ReadError fileUri err
      | Inr text \<Rightarrow>
          if blob_size text > MAX_BYTES_PER_FILE then Truncated fileUri text
          else FullFile fileUri text)"

section \<open>The KvCache build thunk\<close>

text \<open>
  Values the thunk only hands on (the editor state, the modifiers, the rules, chat
  messages, streamed chunks) are JSON-like values with no structure of interest.
\<close>

datatype js_value =
    JsNull
  | JsBool bool
  | JsNumber int
  | JsString jsstring
  | JsArray "js_value list"
  | JsObject "(jsstring \<times> js_value) list"

text \<open>\<open>s.includes(pattern)\<close>: the pattern occurs at some position of \<open>s\<close>.\<close>

fun string_includes :: "'a list \<Rightarrow> 'a list \<Rightarrow> bool" where
  "string_includes [] pattern = (pattern = [])"
| "string_includes (c # cs) pattern = (prefix pattern (c # cs) \<or> string_includes cs pattern)"

record ModelDescription =
  title :: jsstring
  underlyingProviderName :: jsstring

record ContextItemUri =
  uri_type :: jsstring
  uri_value :: jsstring

record ContextItemWithId = ContextItem +
  item_uri :: "ContextItemUri option"

record RangeInFile =
  filepath :: jsstring

datatype role = RoleUser | RoleAssistant | RoleSystem | RoleThinking | RoleTool

record ChatMessage =
  msg_role :: role
  msg_content :: js_value

text \<open>An entry of a history as \<open>constructMessages\<close> takes it.\<close>

record HistoryEntry =
  message :: ChatMessage
  entry_contextItems :: "ContextItemWithId list"

text \<open>
  The fields of the store the thunk reads from its snapshot \<open>state\<close>;
  \<open>selectedChatModel\<close> is what \<open>selectSelectedChatModel(state)\<close> gives.
\<close>

record AppState =
  session_history :: "HistoryEntry list"
  session_mode :: js_value
  session_id :: jsstring
  session_streamAborter :: js_value
  config_defaultContext :: js_value
  config_slashCommands :: js_value
  config_rules :: js_value
  ui_ruleSettings :: js_value
  selectedChatModel :: "ModelDescription option"

record Resolved =
  selectedContextItems :: "ContextItemWithId list"
  selectedCode :: "RangeInFile list"
  resolved_content :: js_value

record Compiled =
  compiledChatMessages :: "js_value list"
  didPrune :: bool
  contextPercentage :: js_value

text \<open>The answer to \<open>llm/compileChat\<close>: \<open>status\<close> is \<open>"error"\<close> or not.\<close>

datatype compile_result = CompileError jsstring | CompileSuccess Compiled

record PromptLog =
  prompt :: jsstring
  completion :: jsstring

text \<open>
  What \<open>await gen.next()\<close> gives: a unit of the response (\<open>done\<close> is false), the
  end of the sequence with the prompt log or nothing as its value, or an exception.
\<close>

datatype next_result =
    NextUnit js_value
  | NextDone "PromptLog option"
  | NextThrows thrown

text \<open>The updates of the two \<open>updateHistoryItemAtIndex\<close> actions.\<close>

datatype history_updates =
    UserTurnUpdates ChatMessage jsstring "ContextItemWithId list" bool
  | HiddenUpdates bool

record StreamChatRequest =
  req_title :: jsstring
  req_messages :: "js_value list"
  req_precompiled :: bool
  req_signal :: js_value

record DevDataLog =
  log_prompt :: jsstring
  log_completion :: jsstring
  log_modelProvider :: jsstring
  log_modelName :: jsstring
  log_modelTitle :: jsstring
  log_sessionId :: jsstring

text \<open>
  What the thunk does to the outside, in the order it does it: the actions it
  dispatches, the two requests to the IDE messenger, each \<open>gen.next()\<close>, and the
  posted log.
\<close>

datatype effect =
    SubmitEditorAndInitAtIndex nat js_value
  | ResetNextCodeBlockToApplyIndex
  | UpdateFileSymbolsFromFiles "jsstring list"
  | UpdateHistoryItemAtIndex nat history_updates
  | SetActive
  | SetInlineErrorMessage "jsstring option"
  | SetInactive
  | RequestCompileChat "js_value list"
  | SetIsPruned bool
  | SetContextPercentage js_value
  | LlmStreamChat StreamChatRequest
  | GenNext
  | AbortStream
  | StreamUpdate js_value
  | AddPromptCompletionPair "PromptLog list"
  | PostDevDataLog DevDataLog

datatype outcome = Returned | Threw thrown

text \<open>
  What the thunk calls and does not define. \<open>isStreaming k\<close> is the value of
  \<open>getState().session.isStreaming\<close> at the \<open>k\<close>-th time the loop reads it, and
  \<open>llmStreamChat request k\<close> is what the \<open>k\<close>-th call of \<open>gen.next()\<close> gives
  (both count from 0).

  \<open>resolveEditorContent\<close> is handed \<open>getState\<close> and \<open>dispatch\<close> too. Its last
  argument is the store it can read, the session history included: when it is
  called the store is the snapshot of the thunk after the two actions dispatched
  before, which the snapshot and the editor state determine. What it dispatches
  itself is not among the effects of the thunk, and the thunk goes on with its
  snapshot.
\<close>

record thunk_env =
  resolveEditorContent ::
    "js_value \<Rightarrow> js_value \<Rightarrow> js_value \<Rightarrow> js_value \<Rightarrow> AppState \<Rightarrow> thrown + Resolved"
  uuidv4 :: jsstring
  getBaseSystemMessage :: "js_value \<Rightarrow> ModelDescription \<Rightarrow> js_value list \<Rightarrow> jsstring"
  constructMessages ::
    "HistoryEntry list \<Rightarrow> jsstring \<Rightarrow> js_value \<Rightarrow> js_value \<Rightarrow> js_value list"
  compileChat :: "js_value list \<Rightarrow> compile_result"
  llmStreamChat :: "StreamChatRequest \<Rightarrow> nat \<Rightarrow> next_result"
  isStreaming :: "nat \<Rightarrow> bool"

text \<open>
  The files whose symbols are updated: the \<open>uri.value\<close> of the context items whose
  \<open>uri\<close> is of type \<open>file\<close> with a non-empty value, then the paths of the selected
  code.
\<close>

definition filesForSymbols :: "Resolved \<Rightarrow> jsstring list" where
  "filesForSymbols r =
     map (\<lambda>item. uri_value (the (item_uri item)))
       (filter (\<lambda>item. case item_uri item of
                          None \<Rightarrow> False
                        | Some u \<Rightarrow> uri_type u = lit ''file'' \<and> uri_value u \<noteq> [])
          (selectedContextItems r))
     @ map filepath (selectedCode r)"

text \<open>
  The history of one entry built for the request: the current message and its
  context items as the resolver gave them, nothing of \<open>state.session.history\<close>.
\<close>

definition minimalHistory :: "Resolved \<Rightarrow> HistoryEntry list" where
  "minimalHistory r =
     [\<lparr>message = \<lparr>msg_role = RoleUser, msg_content = resolved_content r\<rparr>,
       entry_contextItems = selectedContextItems r\<rparr>]"

text \<open>
  The thunk up to its request to \<open>llm/compileChat\<close>: either it throws (no model is
  selected, or resolving the editor content throws), or it has dispatched its
  actions and holds the model and the messages to send.
\<close>

definition prepare ::
  "thunk_env \<Rightarrow> AppState \<Rightarrow> js_value \<Rightarrow> js_value
     \<Rightarrow> (effect list \<times> thrown) + (effect list \<times> ModelDescription \<times> js_value list)" where
  "prepare env state editorState modifiers =
     (let inputIndex = length (session_history state)
      in case selectedChatModel state of
           None \<Rightarrow> Inl ([], ErrorObject (lit ''No chat model selected''))
         | Some model \<Rightarrow>
             let submitted = [SubmitEditorAndInitAtIndex inputIndex editorState,
                              ResetNextCodeBlockToApplyIndex]
             in case resolveEditorContent env editorState modifiers
                       (config_defaultContext state) (config_slashCommands state) state of
                  Inl err \<Rightarrow> Inl (submitted, err)
                | Inr r \<Rightarrow>
                    let baseSystemMessage =
                          getBaseSystemMessage env (session_mode state) model [];
                        messages =
                          constructMessages env (minimalHistory r) baseSystemMessage
                            (config_rules state) (ui_ruleSettings state)
                    in Inr (submitted
                            @ [UpdateFileSymbolsFromFiles (filesForSymbols r),
                               UpdateHistoryItemAtIndex inputIndex
                                 (UserTurnUpdates
                                    \<lparr>msg_role = RoleUser, msg_content = resolved_content r\<rparr>
                                    (uuidv4 env) (selectedContextItems r) True),
                               UpdateHistoryItemAtIndex (inputIndex + 1) (HiddenUpdates True),
                               SetActive,
                               SetInlineErrorMessage None,
                               RequestCompileChat messages],
                            model, messages))"

text \<open>
  The \<open>while\<close> loop over the response. \<open>next\<close> is the result of the last
  \<open>gen.next()\<close>, \<open>polls\<close> the number of times the flag has been read, \<open>calls\<close>
  the number of calls of \<open>gen.next()\<close> so far, \<open>done_effects\<close> what the thunk
  has done so far. The loop need not end: the result is \<open>None\<close> then.
\<close>

partial_function (option) consume ::
  "(nat \<Rightarrow> bool) \<Rightarrow> (nat \<Rightarrow> next_result) \<Rightarrow> nat \<Rightarrow> nat \<Rightarrow> next_result \<Rightarrow> effect list
     \<Rightarrow> (next_result \<times> effect list) option" where
  "consume flag gen polls calls next done_effects =
     (case next of
        NextUnit chunk \<Rightarrow>
          if \<not> flag polls then Some (next, done_effects @ [AbortStream])
          else consume flag gen (polls + 1) (calls + 1) (gen calls)
                 (done_effects @ [StreamUpdate chunk, GenNext])
      | NextDone log \<Rightarrow> Some (next, done_effects)
      | NextThrows err \<Rightarrow> Some (next, done_effects))"

text \<open>After the loop: the prompt log is attached when the sequence ended with one.\<close>

definition finish ::
  "AppState \<Rightarrow> ModelDescription \<Rightarrow> next_result \<times> effect list \<Rightarrow> effect list \<times> outcome" where
  "finish state model result =
     (case result of
        (NextThrows err, done_effects) \<Rightarrow> (done_effects, Threw err)
      | (NextUnit chunk, done_effects) \<Rightarrow> (done_effects @ [SetInactive], Returned)
      | (NextDone None, done_effects) \<Rightarrow> (done_effects @ [SetInactive], Returned)
      | (NextDone (Some log), done_effects) \<Rightarrow>
          (done_effects
           @ [AddPromptCompletionPair [log],
              PostDevDataLog
                \<lparr>log_prompt = prompt log,
                 log_completion = completion log,
                 log_modelProvider = underlyingProviderName model,
                 log_modelName = title model,
                 log_modelTitle = title model,
                 log_sessionId = session_id state\<rparr>,
              SetInactive],
           Returned))"

text \<open>
  The function handed to \<open>streamThunkWrapper\<close>: what it does and how it ends, or
  \<open>None\<close> when the response never ends.
\<close>

definition streamBuildKvCache ::
  "thunk_env \<Rightarrow> AppState \<Rightarrow> js_value \<Rightarrow> js_value \<Rightarrow> (effect list \<times> outcome) option" where
  "streamBuildKvCache env state editorState modifiers =
     (case prepare env state editorState modifiers of
        Inl (done_effects, err) \<Rightarrow> Some (done_effects, Threw err)
      | Inr (prepared, model, messages) \<Rightarrow>
          (case compileChat env messages of
             CompileError err \<Rightarrow>
               if string_includes err (lit ''Not enough context'')
               then Some (prepared
                          @ [SetInlineErrorMessage (Some (lit ''out-of-context'')), SetInactive],
                          Returned)
               else Some (prepared, Threw (ErrorObject err))
           | CompileSuccess compiled \<Rightarrow>
               let request =
                     \<lparr>req_title = title model,
                      req_messages = compiledChatMessages compiled,
                      req_precompiled = True,
                      req_signal = session_streamAborter state\<rparr>;
                   gen = llmStreamChat env request
               in map_option (finish state model)
                    (consume (isStreaming env) gen 0 1 (gen 0)
                       (prepared
                        @ [SetIsPruned (didPrune compiled),
                           SetContextPercentage (contextPercentage compiled),
                           LlmStreamChat request,
                           GenNext]))))"

text \<open>The requests to \<open>llm/compileChat\<close> among the effects.\<close>

fun is_compile_request :: "effect \<Rightarrow> bool" where
  "is_compile_request (RequestCompileChat sent) = True"
| "is_compile_request _ = False"

section \<open>Concrete folders\<close>

text \<open>
  Environments to run the definitions on: a folder given as a list of files with
  their text (a file not in the list cannot be read), and one where every call to
  the IDE throws.
\<close>

definition path_basename :: "jsstring \<Rightarrow> jsstring" where
  "path_basename uri = last (split_on (of_char CHR ''/'') uri)"

definition no_such_file :: thrown where
  "no_such_file = ErrorObject (lit ''ENOENT: no such file or directory'')"

definition folder_env :: "jsstring list \<Rightarrow> (jsstring \<times> jsstring) list \<Rightarrow> env" where
  "folder_env listing files =
     \<lparr>getUriPathBasename = path_basename,
      toLowerCase = (\<lambda>s. s),
      walkDir = (\<lambda>folder. Inr listing),
      readFile = (\<lambda>uri. case map_of files uri of
                            None \<Rightarrow> Inl no_such_file
                          | Some text \<Rightarrow> Inr text)\<rparr>"

definition unreadable_env :: env where
  "unreadable_env =
     \<lparr>getUriPathBasename = path_basename,
      toLowerCase = (\<lambda>s. s),
      walkDir = (\<lambda>folder. Inl no_such_file),
      readFile = (\<lambda>uri. Inl no_such_file)\<rparr>"

definition folder_uri :: jsstring where
  "folder_uri = lit ''file:///w''"

definition png_uri :: jsstring where
  "png_uri = lit ''file:///w/a.png''"

definition ts_uri :: jsstring where
  "ts_uri = lit ''file:///w/a.ts''"

definition gone_uri :: jsstring where
  "gone_uri = lit ''file:///w/gone.ts''"

text \<open>A file of 40000 copies of U+4E2D: 40000 code units, 120000 bytes of UTF-8.\<close>

definition cjk_uri :: jsstring where
  "cjk_uri = lit ''file:///w/notes.txt''"

definition cjk_text :: jsstring where
  "cjk_text = replicate 40000 0x4E2D"

text \<open>A file of 2000001 letters \<open>a\<close>, and one of exactly the per-file cap.\<close>

definition huge_uri :: jsstring where
  "huge_uri = lit ''file:///w/huge.txt''"

definition huge_text :: jsstring where
  "huge_text = replicate 2000001 0x61"

definition full_uri :: jsstring where
  "full_uri = lit ''file:///w/full.txt''"

definition full_text :: jsstring where
  "full_text = replicate 100000 0x61"

text \<open>The loop after twenty files of the per-file cap: the total cap is reached exactly.\<close>

definition twenty_full :: loop_state where
  "twenty_full =
     \<lparr>contextItems = replicate 20 (FullFile full_uri full_text),
      totalBytes = 2000000, processedFiles = 20\<rparr>"

text \<open>
  A listing of 52 files: one that cannot be read, then 51 times the same readable
  file.
\<close>

definition late_listing :: "jsstring list" where
  "late_listing = gone_uri # replicate 51 ts_uri"

text \<open>
  A thunk environment: the editor state is taken as the resolved content, the
  messages are the system message and the contents of the history handed over, the
  compilation gives the answer chosen here, the response never ends by itself (its
  \<open>k\<close>-th unit is the number \<open>k\<close>), and the flag is the one chosen here.
\<close>

definition kv_env :: "compile_result \<Rightarrow> (nat \<Rightarrow> bool) \<Rightarrow> thunk_env" where
  "kv_env answer flag =
     \<lparr>resolveEditorContent =
        (\<lambda>editorState modifiers defaultContext slashCommands store.
           Inr \<lparr>selectedContextItems = [], selectedCode = [],
                resolved_content = editorState\<rparr>),
      uuidv4 = lit ''0b5e'',
      getBaseSystemMessage = (\<lambda>mode model tools. lit ''system''),
      constructMessages =
        (\<lambda>history systemMessage rules settings.
           JsString systemMessage # map (\<lambda>entry. msg_content (message entry)) history),
      compileChat = (\<lambda>messages. answer),
      llmStreamChat = (\<lambda>request k. NextUnit (JsNumber (int k))),
      isStreaming = flag\<rparr>"

definition kv_model :: ModelDescription where
  "kv_model = \<lparr>title = lit ''llama'', underlyingProviderName = lit ''vllm''\<rparr>"

definition kv_state :: "HistoryEntry list \<Rightarrow> AppState" where
  "kv_state history =
     \<lparr>session_history = history,
      session_mode = JsString (lit ''chat''),
      session_id = lit ''s1'',
      session_streamAborter = JsNull,
      config_defaultContext = JsArray [],
      config_slashCommands = JsArray [],
      config_rules = JsArray [],
      ui_ruleSettings = JsObject [],
      selectedChatModel = Some kv_model\<rparr>"

definition earlier_turn :: HistoryEntry where
  "earlier_turn =
     \<lparr>message = \<lparr>msg_role = RoleUser, msg_content = JsString (lit ''earlier question'')\<rparr>,
      entry_contextItems = []\<rparr>"

definition kv_prompt :: js_value where
  "kv_prompt = JsString (lit ''where is the speed set?'')"

definition kv_compiled :: Compiled where
  "kv_compiled =
     \<lparr>compiledChatMessages = [JsString (lit ''system''), kv_prompt],
      didPrune = False,
      contextPercentage = JsNumber 0\<rparr>"

definition kv_request :: StreamChatRequest where
  "kv_request =
     \<lparr>req_title = lit ''llama'',
      req_messages = [JsString (lit ''system''), kv_prompt],
      req_precompiled = True,
      req_signal = JsNull\<rparr>"

section \<open>The loop of the folder context provider\<close>

lemma read_files_total_accounted:
  "totalBytes st = full_total (contextItems st) \<Longrightarrow>
   totalBytes (read_files e fs st) = full_total (contextItems (read_files e fs st))"
  by (induction fs arbitrary: st)
     (auto simp: push_def Let_def full_total_def split: sum.splits)

lemma read_files_processed_accounted:
  "processedFiles st = content_count (contextItems st) \<Longrightarrow>
   processedFiles (read_files e fs st) = content_count (contextItems (read_files e fs st))"
  by (induction fs arbitrary: st)
     (auto simp: push_def Let_def content_count_def split: sum.splits)

lemma read_files_total_capped:
  "totalBytes st \<le> MAX_TOTAL_BYTES \<Longrightarrow> totalBytes (read_files e fs st) \<le> MAX_TOTAL_BYTES"
  by (induction fs arbitrary: st)
     (auto simp: push_def Let_def split: sum.splits)

lemma read_files_processed_capped:
  "processedFiles st \<le> MAX_FILES \<Longrightarrow> processedFiles (read_files e fs st) \<le> MAX_FILES"
  by (induction fs arbitrary: st)
     (auto simp: push_def Let_def split: sum.splits)

lemma read_files_grows:
  "length (contextItems st) \<le> length (contextItems (read_files e fs st))"
proof (induction fs arbitrary: st)
  case Nil
  show ?case by simp
next
  case (Cons f fs)
  have step: "length (contextItems st) \<le> length (contextItems (read_files e fs st'))"
    if "length (contextItems st') = Suc (length (contextItems st))" for st'
    using Cons.IH [of st'] that by simp
  show ?case
    by (auto simp: push_def Let_def split: sum.splits intro!: step)
qed

lemma read_files_pushes:
  assumes "fs \<noteq> []"
  shows "length (contextItems st) < length (contextItems (read_files e fs st))"
proof -
  obtain f rest where fs: "fs = f # rest"
    using assms by (cases fs) auto
  have step: "length (contextItems st) < length (contextItems (read_files e rest st'))"
    if "length (contextItems st') = Suc (length (contextItems st))" for st'
    using read_files_grows [of st' e rest] that by simp
  show ?thesis
    unfolding fs by (auto simp: push_def Let_def split: sum.splits intro!: step)
qed

lemma marker_count_snoc:
  "marker_count m (xs @ [x]) = marker_count m xs + (if x = m then 1 else 0)"
  by (simp add: marker_count_def)

lemma read_files_files_limit_once:
  "marker_count FilesLimitReached (contextItems (read_files e fs st))
     \<le> Suc (marker_count FilesLimitReached (contextItems st))"
proof (induction fs arbitrary: st)
  case Nil
  show ?case by simp
next
  case (Cons f fs)
  have step: "marker_count FilesLimitReached (contextItems (read_files e fs st'))
                \<le> Suc (marker_count FilesLimitReached (contextItems st))"
    if "marker_count FilesLimitReached (contextItems st')
          = marker_count FilesLimitReached (contextItems st)" for st'
    using Cons.IH [of st'] that by simp
  show ?case
    by (auto simp: push_def Let_def marker_count_snoc split: sum.splits intro!: step)
qed

lemma read_files_size_limit_once:
  "marker_count SizeLimitReached (contextItems (read_files e fs st))
     \<le> Suc (marker_count SizeLimitReached (contextItems st))"
proof (induction fs arbitrary: st)
  case Nil
  show ?case by simp
next
  case (Cons f fs)
  have step: "marker_count SizeLimitReached (contextItems (read_files e fs st'))
                \<le> Suc (marker_count SizeLimitReached (contextItems st))"
    if "marker_count SizeLimitReached (contextItems st')
          = marker_count SizeLimitReached (contextItems st)" for st'
    using Cons.IH [of st'] that by simp
  show ?case
    by (auto simp: push_def Let_def marker_count_snoc split: sum.splits intro!: step)
qed

lemma emit_for_Inl: "readFile e f = Inl err \<Longrightarrow> emit_for e f = ReadError f err"
  by (simp add: emit_for_def)

lemma emit_for_big:
  "readFile e f = Inr text \<Longrightarrow> blob_size text > MAX_BYTES_PER_FILE \<Longrightarrow>
   emit_for e f = Truncated f text"
  by (simp add: emit_for_def)

lemma emit_for_small:
  "readFile e f = Inr text \<Longrightarrow> \<not> blob_size text > MAX_BYTES_PER_FILE \<Longrightarrow>
   emit_for e f = FullFile f text"
  by (simp add: emit_for_def)

lemma read_files_prefix:
  assumes "processedFiles st + length fs \<le> MAX_FILES"
    and "totalBytes st + full_total (map (emit_for e) fs) \<le> MAX_TOTAL_BYTES"
  shows "read_files e (fs @ rest) st =
         read_files e rest
           \<lparr>contextItems = contextItems st @ map (emit_for e) fs,
            totalBytes = totalBytes st + full_total (map (emit_for e) fs),
            processedFiles = processedFiles st + content_count (map (emit_for e) fs)\<rparr>"
  using assms
proof (induction fs arbitrary: st)
  case Nil
  show ?case by (cases st) (simp add: full_total_def content_count_def)
next
  case (Cons f fs)
  from Cons.prems have small: "processedFiles st < MAX_FILES" by simp
  show ?case
  proof (cases "readFile e f")
    case (Inl err)
    let ?st = "push (ReadError f err) st"
    have "read_files e ((f # fs) @ rest) st = read_files e (fs @ rest) ?st"
      using small Inl by simp
    also have "\<dots> = read_files e rest
           \<lparr>contextItems = contextItems ?st @ map (emit_for e) fs,
            totalBytes = totalBytes ?st + full_total (map (emit_for e) fs),
            processedFiles = processedFiles ?st + content_count (map (emit_for e) fs)\<rparr>"
      using Cons.prems Inl
      by (intro Cons.IH) (simp_all add: push_def full_total_def emit_for_Inl)
    finally show ?thesis
      using Inl by (simp add: push_def full_total_def content_count_def emit_for_Inl)
  next
    case (Inr body)
    show ?thesis
    proof (cases "blob_size body > MAX_BYTES_PER_FILE")
      case True
      let ?st = "(push (Truncated f body) st)\<lparr>processedFiles := processedFiles st + 1\<rparr>"
      have "read_files e ((f # fs) @ rest) st = read_files e (fs @ rest) ?st"
        using small Inr True by simp
      also have "\<dots> = read_files e rest
           \<lparr>contextItems = contextItems ?st @ map (emit_for e) fs,
            totalBytes = totalBytes ?st + full_total (map (emit_for e) fs),
            processedFiles = processedFiles ?st + content_count (map (emit_for e) fs)\<rparr>"
        using Cons.prems Inr True
        by (intro Cons.IH) (simp_all add: push_def full_total_def emit_for_big)
      finally show ?thesis
        using Inr True by (simp add: push_def full_total_def content_count_def emit_for_big)
    next
      case False
      let ?st = "(push (FullFile f body) st)
                   \<lparr>totalBytes := totalBytes st + blob_size body,
                    processedFiles := processedFiles st + 1\<rparr>"
      have fits: "\<not> totalBytes st + blob_size body > MAX_TOTAL_BYTES"
        using Cons.prems Inr False by (simp add: full_total_def emit_for_small)
      have "read_files e ((f # fs) @ rest) st = read_files e (fs @ rest) ?st"
        using small Inr False fits by simp
      also have "\<dots> = read_files e rest
           \<lparr>contextItems = contextItems ?st @ map (emit_for e) fs,
            totalBytes = totalBytes ?st + full_total (map (emit_for e) fs),
            processedFiles = processedFiles ?st + content_count (map (emit_for e) fs)\<rparr>"
        using Cons.prems Inr False
        by (intro Cons.IH) (simp_all add: push_def full_total_def emit_for_small)
      finally show ?thesis
        using Inr False by (simp add: push_def full_total_def content_count_def emit_for_small add.assoc)
    qed
  qed
qed

lemma read_files_all_fail:
  assumes "\<forall>f \<in> set fs. readFile e f = Inl err"
    and "processedFiles st < MAX_FILES"
  shows "read_files e fs st =
         st\<lparr>contextItems := contextItems st @ map (\<lambda>f. ReadError f err) fs\<rparr>"
  using assms
  by (induction fs arbitrary: st) (auto simp: push_def)

lemma blob_size_Cons_plain:
  "\<not> is_high_surrogate c \<Longrightarrow> blob_size (c # zs) = bmp_bytes c + blob_size zs"
  by (cases zs) simp_all

lemma blob_size_replicate:
  "\<not> is_high_surrogate c \<Longrightarrow> blob_size (replicate n c @ ys) = n * bmp_bytes c + blob_size ys"
  by (induction n) (simp_all add: blob_size_Cons_plain)

lemma getContextItems_emitted_loop:
  assumes "query \<noteq> []" and "walkDir e query = Inr fileUris"
    and "filterFiles e fileUris \<noteq> []"
  shows "getContextItems_emitted e query =
         FolderSummary query
           (processedFiles (read_files e (filterFiles e fileUris) initial_state))
           (totalBytes (read_files e (filterFiles e fileUris) initial_state))
         # contextItems (read_files e (filterFiles e fileUris) initial_state)"
proof -
  have "contextItems (read_files e (filterFiles e fileUris) initial_state) \<noteq> []"
    using read_files_pushes [OF assms(3), of initial_state e] by auto
  then show ?thesis
    using assms by (simp add: getContextItems_emitted_def Let_def)
qed

lemma initial_total_accounted: "totalBytes initial_state = full_total (contextItems initial_state)"
  by (simp add: initial_state_def full_total_def)

lemma initial_processed_accounted:
  "processedFiles initial_state = content_count (contextItems initial_state)"
  by (simp add: initial_state_def content_count_def)

lemma loop_content_capped:
  "content_count (contextItems (read_files e fs initial_state)) \<le> MAX_FILES"
  using read_files_processed_accounted [OF initial_processed_accounted, of e fs]
        read_files_processed_capped [of initial_state e fs]
  by (simp add: initial_state_def)

lemma loop_files_limit_once:
  "marker_count FilesLimitReached (contextItems (read_files e fs initial_state)) \<le> 1"
  using read_files_files_limit_once [of e fs initial_state]
  by (simp add: initial_state_def marker_count_def)

lemma folder_env_sel [simp]:
  "getUriPathBasename (folder_env l fs) = path_basename"
  "toLowerCase (folder_env l fs) = (\<lambda>s. s)"
  "walkDir (folder_env l fs) q = Inr l"
  "readFile (folder_env l fs) u = (case map_of fs u of None \<Rightarrow> Inl no_such_file | Some text \<Rightarrow> Inr text)"
  by (simp_all add: folder_env_def)

lemma read_files_extends:
  "\<exists>later. contextItems (read_files e fs st) = contextItems st @ later"
proof (induction fs arbitrary: st)
  case Nil
  show ?case by simp
next
  case (Cons f fs)
  have step: "\<exists>later. contextItems (read_files e fs st') = contextItems st @ later"
    if "contextItems st' = contextItems st @ [x]" for st' x
    using Cons.IH [of st'] that by auto
  show ?case
    by (auto simp: push_def Let_def split: sum.splits intro!: step)
qed

lemma blob_size_cjk_text: "blob_size cjk_text = 120000"
  using blob_size_replicate [of "0x4E2D" 40000 "[]"]
  by (simp add: cjk_text_def is_high_surrogate_def bmp_bytes_def)

lemma mixed_folder_kept:
  "filterFiles (folder_env [gone_uri, cjk_uri, ts_uri] [(cjk_uri, cjk_text), (ts_uri, lit ''ok'')])
     [gone_uri, cjk_uri, ts_uri] = [gone_uri, cjk_uri, ts_uri]"
  by (simp add: filterFiles_def keep_file_def path_basename_def lit_def
       gone_uri_def cjk_uri_def ts_uri_def suffix_to_prefix
       lastIndexOf_def substring_from_def BINARY_EXTENSIONS_def IGNORE_DIRS_def Let_def)

lemma mixed_folder_read:
  "read_files (folder_env [gone_uri, cjk_uri, ts_uri] [(cjk_uri, cjk_text), (ts_uri, lit ''ok'')])
     [gone_uri, cjk_uri, ts_uri] initial_state
   = \<lparr>contextItems = [ReadError gone_uri no_such_file, Truncated cjk_uri cjk_text,
                       FullFile ts_uri (lit ''ok'')],
      totalBytes = 2, processedFiles = 2\<rparr>"
proof -
  have ne: "gone_uri \<noteq> cjk_uri" "gone_uri \<noteq> ts_uri" "cjk_uri \<noteq> ts_uri"
    by (simp_all add: gone_uri_def cjk_uri_def ts_uri_def lit_def)
  have ok: "blob_size (lit ''ok'') = 2"
    by (simp add: lit_def bmp_bytes_def is_high_surrogate_def)
  show ?thesis
    using ne
    by (simp add: initial_state_def push_def MAX_FILES_def MAX_BYTES_PER_FILE_def
          MAX_TOTAL_BYTES_def blob_size_cjk_text ok)
qed

lemma blob_size_huge_text: "blob_size huge_text = 2000001"
  using blob_size_replicate [of "0x61" 2000001 "[]"]
  by (simp add: huge_text_def is_high_surrogate_def bmp_bytes_def)

lemma blob_size_full_text: "blob_size full_text = 100000"
  using blob_size_replicate [of "0x61" 100000 "[]"]
  by (simp add: full_text_def is_high_surrogate_def bmp_bytes_def)

lemma blob_size_ok: "blob_size (lit ''ok'') = 2"
  by (simp add: lit_def bmp_bytes_def is_high_surrogate_def)

lemma twenty_full_reached:
  "read_files (folder_env [] [(full_uri, full_text), (ts_uri, lit ''ok'')])
     (replicate 20 full_uri) initial_state = twenty_full"
proof -
  let ?e = "folder_env [] [(full_uri, full_text), (ts_uri, lit ''ok'')]"
  have em: "emit_for ?e full_uri = FullFile full_uri full_text"
    by (simp add: emit_for_def blob_size_full_text MAX_BYTES_PER_FILE_def)
  have "read_files ?e (replicate 20 full_uri @ []) initial_state =
        read_files ?e []
          \<lparr>contextItems = contextItems initial_state @ map (emit_for ?e) (replicate 20 full_uri),
           totalBytes = totalBytes initial_state
                        + full_total (map (emit_for ?e) (replicate 20 full_uri)),
           processedFiles = processedFiles initial_state
                        + content_count (map (emit_for ?e) (replicate 20 full_uri))\<rparr>"
    by (rule read_files_prefix)
       (simp_all add: initial_state_def em full_total_def sum_list_replicate
          blob_size_full_text MAX_FILES_def MAX_TOTAL_BYTES_def)
  then show ?thesis
    by (simp add: initial_state_def em full_total_def content_count_def sum_list_replicate
          blob_size_full_text twenty_full_def)
qed

lemma emitted_marker_count:
  assumes "query \<noteq> []" and "walkDir e query = Inr fileUris"
  shows "marker_count FilesLimitReached (getContextItems_emitted e query)
         = marker_count FilesLimitReached
             (contextItems (read_files e (filterFiles e fileUris) initial_state))"
proof (cases "filterFiles e fileUris = []")
  case True
  then show ?thesis
    using assms by (simp add: getContextItems_emitted_def marker_count_def initial_state_def)
next
  case False
  show ?thesis
    unfolding getContextItems_emitted_loop [OF assms False]
    by (simp add: marker_count_def)
qed

lemma emitted_content_count:
  assumes "query \<noteq> []" and "walkDir e query = Inr fileUris"
  shows "content_count (getContextItems_emitted e query)
         = content_count
             (contextItems (read_files e (filterFiles e fileUris) initial_state))"
proof (cases "filterFiles e fileUris = []")
  case True
  then show ?thesis
    using assms by (simp add: getContextItems_emitted_def content_count_def initial_state_def)
next
  case False
  show ?thesis
    unfolding getContextItems_emitted_loop [OF assms False]
    by (simp add: content_count_def)
qed

lemma ts_kept: "keep_file (folder_env l fs) ts_uri"
  by (simp add: keep_file_def path_basename_def lit_def ts_uri_def suffix_to_prefix
       lastIndexOf_def substring_from_def BINARY_EXTENSIONS_def IGNORE_DIRS_def Let_def)

lemma length_truncation_notice: "length truncation_notice = 39"
  by (simp add: truncation_notice_def lit_def)

lemma blob_size_truncation_notice: "blob_size truncation_notice = 39"
  by (simp add: truncation_notice_def lit_def is_high_surrogate_def bmp_bytes_def)

text \<open>
  On text of code units below U+0080 a byte is a code unit, and the cut is exact.
  In code units the item of a truncated file is never longer than the cap and the
  notice.
\<close>

lemma blob_size_ascii:
  "\<forall>u \<in> set s. u < 0x80 \<Longrightarrow> blob_size s = length s"
proof (induction s)
  case Nil
  show ?case by simp
next
  case (Cons u s)
  have low: "u < 0x80"
    using Cons.prems by simp
  then have "\<not> is_high_surrogate u"
    by (simp add: is_high_surrogate_def word_less_nat_alt word_le_nat_alt)
  then show ?case
    using Cons low by (simp add: blob_size_Cons_plain bmp_bytes_def)
qed

lemma ascii_truncated_item_exact:
  assumes "\<forall>u \<in> set body. u < 0x80" and "MAX_BYTES_PER_FILE < blob_size body"
  shows "length (content (render e (Truncated fileUri body)))
         = MAX_BYTES_PER_FILE + length truncation_notice"
  using assms blob_size_ascii [of body] by (simp add: substring_to_def)

lemma truncated_item_units_bounded:
  "length (content (render e (Truncated fileUri body)))
     \<le> MAX_BYTES_PER_FILE + length truncation_notice"
  by (simp add: substring_to_def)

text \<open>
  The files-limit marker is emitted exactly when the loop finds a file left after
  \<open>MAX_FILES\<close> files have been processed within the total cap.
\<close>

lemma content_count_Cons:
  "content_count (x # xs) = (if is_content x then 1 else 0) + content_count xs"
  by (simp add: content_count_def)

lemma full_total_Cons: "full_total (x # xs) = full_bytes x + full_total xs"
  by (simp add: full_total_def)

lemma ex_less_Suc_split:
  "(\<exists>k<Suc n. P k) = (P 0 \<or> (\<exists>k<n. P (Suc k)))"
  by (metis less_Suc_eq_0_disj)

lemma read_files_limit_marker_iff:
  assumes "processedFiles st \<le> MAX_FILES" and "totalBytes st \<le> MAX_TOTAL_BYTES"
  shows "marker_count FilesLimitReached (contextItems (read_files e fs st)) =
         marker_count FilesLimitReached (contextItems st)
         + (if \<exists>k<length fs.
                 processedFiles st + content_count (map (emit_for e) (take k fs)) = MAX_FILES
                 \<and> totalBytes st + full_total (map (emit_for e) (take k fs)) \<le> MAX_TOTAL_BYTES
            then 1 else 0)"
  using assms
proof (induction fs arbitrary: st)
  case Nil
  show ?case by simp
next
  case (Cons f fs)
  let ?cond = "\<lambda>fs p t. \<exists>k<length fs.
                 p + content_count (map (emit_for e) (take k fs)) = MAX_FILES
                 \<and> t + full_total (map (emit_for e) (take k fs)) \<le> MAX_TOTAL_BYTES"
  show ?case
  proof (cases "processedFiles st \<ge> MAX_FILES")
    case True
    then have full: "processedFiles st = MAX_FILES"
      using Cons.prems(1) by simp
    have "?cond (f # fs) (processedFiles st) (totalBytes st)"
      using full Cons.prems(2) by (intro exI [of _ 0]) (simp add: content_count_def full_total_def)
    then show ?thesis
      using True by (simp add: push_def marker_count_snoc)
  next
    case False
    then have small: "processedFiles st < MAX_FILES" by simp
    have split: "?cond (f # fs) (processedFiles st) (totalBytes st) =
                 (\<exists>k<length fs.
                   processedFiles st + content_count (emit_for e f # map (emit_for e) (take k fs))
                     = MAX_FILES
                   \<and> totalBytes st + full_total (emit_for e f # map (emit_for e) (take k fs))
                     \<le> MAX_TOTAL_BYTES)"
      using small by (simp add: ex_less_Suc_split content_count_def)
    show ?thesis
    proof (cases "readFile e f")
      case (Inl err)
      let ?st = "push (ReadError f err) st"
      have step: "read_files e (f # fs) st = read_files e fs ?st"
        using small Inl by simp
      have ih: "marker_count FilesLimitReached (contextItems (read_files e fs ?st)) =
                marker_count FilesLimitReached (contextItems ?st)
                + (if ?cond fs (processedFiles ?st) (totalBytes ?st) then 1 else 0)"
        using Cons.prems by (intro Cons.IH) (simp_all add: push_def)
      have "?cond (f # fs) (processedFiles st) (totalBytes st)
            = ?cond fs (processedFiles ?st) (totalBytes ?st)"
        unfolding split
        by (simp add: emit_for_Inl [OF Inl] content_count_Cons full_total_Cons push_def)
      then show ?thesis
        unfolding step ih by (simp add: push_def marker_count_snoc)
    next
      case (Inr body)
      show ?thesis
      proof (cases "blob_size body > MAX_BYTES_PER_FILE")
        case True
        let ?st = "(push (Truncated f body) st)\<lparr>processedFiles := processedFiles st + 1\<rparr>"
        have step: "read_files e (f # fs) st = read_files e fs ?st"
          using small Inr True by simp
        have ih: "marker_count FilesLimitReached (contextItems (read_files e fs ?st)) =
                  marker_count FilesLimitReached (contextItems ?st)
                  + (if ?cond fs (processedFiles ?st) (totalBytes ?st) then 1 else 0)"
          using Cons.prems small by (intro Cons.IH) (simp_all add: push_def)
        have "?cond (f # fs) (processedFiles st) (totalBytes st)
              = ?cond fs (processedFiles ?st) (totalBytes ?st)"
          unfolding split
          by (simp add: emit_for_big [OF Inr True] content_count_Cons full_total_Cons push_def)
        then show ?thesis
          unfolding step ih by (simp add: push_def marker_count_snoc)
      next
        case False
        note fits_file = False
        show ?thesis
        proof (cases "totalBytes st + blob_size body > MAX_TOTAL_BYTES")
          case True
          have step: "read_files e (f # fs) st = push SizeLimitReached st"
            using small Inr fits_file True by simp
          have "\<not> ?cond (f # fs) (processedFiles st) (totalBytes st)"
            unfolding split using True
            by (simp add: emit_for_small [OF Inr fits_file] full_total_Cons)
          then show ?thesis
            unfolding step by (simp add: push_def marker_count_snoc)
        next
          case False
          let ?st = "(push (FullFile f body) st)
                       \<lparr>totalBytes := totalBytes st + blob_size body,
                        processedFiles := processedFiles st + 1\<rparr>"
          have step: "read_files e (f # fs) st = read_files e fs ?st"
            using small Inr fits_file False by simp
          have ih: "marker_count FilesLimitReached (contextItems (read_files e fs ?st)) =
                    marker_count FilesLimitReached (contextItems ?st)
                    + (if ?cond fs (processedFiles ?st) (totalBytes ?st) then 1 else 0)"
            using Cons.prems small False by (intro Cons.IH) (simp_all add: push_def)
          have "?cond (f # fs) (processedFiles st) (totalBytes st)
                = ?cond fs (processedFiles ?st) (totalBytes ?st)"
            unfolding split
            by (simp add: emit_for_small [OF Inr fits_file] content_count_Cons full_total_Cons
                  push_def add.assoc)
          then show ?thesis
            unfolding step ih by (simp add: push_def marker_count_snoc)
        qed
      qed
    qed
  qed
qed

lemma loop_files_limit_iff:
  "(marker_count FilesLimitReached (contextItems (read_files e fs initial_state)) = 1) =
   (\<exists>k<length fs.
      content_count (map (emit_for e) (take k fs)) = MAX_FILES
      \<and> full_total (map (emit_for e) (take k fs)) \<le> MAX_TOTAL_BYTES)"
  using read_files_limit_marker_iff [of initial_state e fs]
  by (simp add: initial_state_def marker_count_def)

lemma gone_kept: "keep_file (folder_env l fs) gone_uri"
  by (simp add: keep_file_def path_basename_def lit_def gone_uri_def suffix_to_prefix
       lastIndexOf_def substring_from_def BINARY_EXTENSIONS_def IGNORE_DIRS_def Let_def)

lemma late_listing_kept:
  "filterFiles (folder_env late_listing [(ts_uri, lit ''ok'')]) late_listing = late_listing"
  by (simp add: filterFiles_def late_listing_def gone_kept ts_kept)

lemma late_listing_fifty:
  "content_count (map (emit_for (folder_env late_listing [(ts_uri, lit ''ok'')]))
                    (take 51 late_listing)) = MAX_FILES
   \<and> full_total (map (emit_for (folder_env late_listing [(ts_uri, lit ''ok'')]))
                    (take 51 late_listing)) \<le> MAX_TOTAL_BYTES"
proof -
  let ?e = "folder_env late_listing [(ts_uri, lit ''ok'')]"
  have ne: "gone_uri \<noteq> ts_uri"
    by (simp add: gone_uri_def ts_uri_def lit_def)
  have gone: "emit_for ?e gone_uri = ReadError gone_uri no_such_file"
    using ne by (simp add: emit_for_def)
  have ts: "emit_for ?e ts_uri = FullFile ts_uri (lit ''ok'')"
    by (simp add: emit_for_def blob_size_ok MAX_BYTES_PER_FILE_def)
  have pre: "take 51 late_listing = gone_uri # replicate 50 ts_uri"
    by (simp add: late_listing_def)
  show ?thesis
    unfolding pre
    by (simp add: gone ts content_count_def full_total_def sum_list_replicate blob_size_ok
          MAX_FILES_def MAX_TOTAL_BYTES_def)
qed

section \<open>Claims about the folder context provider\<close>

text \<open>
  C7. When no file is left after filtering, the provider returns exactly one item,
  the one that says no files were found.
\<close>
theorem no_eligible_files_single_item:
  assumes "query \<noteq> []" and "walkDir e query = Inr fileUris"
    and "filterFiles e fileUris = []"
  shows "getContextItems e query =
         [\<lparr>name = lit ''No Files Found'',
           description = lit ''No text files found in the selected folder'',
           content = lit (''The selected folder contains no readable text files or ''
                          @ ''all files were filtered out due to size/type restrictions.'')\<rparr>]"
  using assms by (simp add: getContextItems_def getContextItems_emitted_def)

lemma png_filtered: "filterFiles (folder_env [png_uri] [(png_uri, lit ''x'')]) [png_uri] = []"
  by (simp add: filterFiles_def keep_file_def path_basename_def lit_def png_uri_def
       lastIndexOf_def substring_from_def BINARY_EXTENSIONS_def IGNORE_DIRS_def Let_def)

theorem no_eligible_files_single_item_witness:
  "folder_uri \<noteq> []
   \<and> walkDir (folder_env [png_uri] [(png_uri, lit ''x'')]) folder_uri = Inr [png_uri]
   \<and> filterFiles (folder_env [png_uri] [(png_uri, lit ''x'')]) [png_uri] = []
   \<and> getContextItems (folder_env [png_uri] [(png_uri, lit ''x'')]) folder_uri =
         [\<lparr>name = lit ''No Files Found'',
           description = lit ''No text files found in the selected folder'',
           content = lit (''The selected folder contains no readable text files or ''
                          @ ''all files were filtered out due to size/type restrictions.'')\<rparr>]"
proof -
  have q: "folder_uri \<noteq> []"
    by (simp add: folder_uri_def lit_def)
  have w: "walkDir (folder_env [png_uri] [(png_uri, lit ''x'')]) folder_uri = Inr [png_uri]"
    by simp
  show ?thesis
    using no_eligible_files_single_item [OF q w png_filtered] q w png_filtered by simp
qed

text \<open>
  C9. The provider returns the empty list exactly when the query is empty. When the
  query is not empty and the directory walk throws, the result is the single error
  item with the thrown message.
\<close>
theorem empty_result_iff_empty_query:
  "(getContextItems e query = []) = (query = [])
   \<and> (query \<noteq> [] \<and> walkDir e query = Inl err \<longrightarrow>
        getContextItems e query =
          [\<lparr>name = lit ''Error'',
            description = lit ''Failed to load folder contents'',
            content = lit ''Error loading folder contents: '' @ error_text err\<rparr>])"
proof -
  have nonempty: "getContextItems_emitted e query \<noteq> []" if q: "query \<noteq> []"
  proof (cases "walkDir e query")
    case (Inl err')
    then show ?thesis using q by (simp add: getContextItems_emitted_def)
  next
    case (Inr fileUris)
    show ?thesis
    proof (cases "filterFiles e fileUris = []")
      case True
      then show ?thesis using q Inr by (simp add: getContextItems_emitted_def)
    next
      case False
      then show ?thesis using getContextItems_emitted_loop [OF q Inr False] by simp
    qed
  qed
  have "(getContextItems e query = []) = (query = [])"
    using nonempty by (auto simp: getContextItems_def getContextItems_emitted_def)
  moreover have "query \<noteq> [] \<and> walkDir e query = Inl err \<longrightarrow>
        getContextItems e query =
          [\<lparr>name = lit ''Error'',
            description = lit ''Failed to load folder contents'',
            content = lit ''Error loading folder contents: '' @ error_text err\<rparr>]"
    by (simp add: getContextItems_def getContextItems_emitted_def)
  ultimately show ?thesis by simp
qed

theorem empty_result_iff_empty_query_witness:
  "getContextItems unreadable_env [] = []
   \<and> folder_uri \<noteq> []
   \<and> walkDir unreadable_env folder_uri = Inl no_such_file
   \<and> getContextItems unreadable_env folder_uri =
          [\<lparr>name = lit ''Error'',
            description = lit ''Failed to load folder contents'',
            content = lit ''Error loading folder contents: ''
                      @ lit ''ENOENT: no such file or directory''\<rparr>]"
proof -
  have q: "folder_uri \<noteq> []"
    by (simp add: folder_uri_def lit_def)
  have w: "walkDir unreadable_env folder_uri = Inl no_such_file"
    by (simp add: unreadable_env_def)
  show ?thesis
    using empty_result_iff_empty_query [of unreadable_env folder_uri no_such_file]
          empty_result_iff_empty_query [of unreadable_env "[]" no_such_file] q w
    by (simp add: no_such_file_def)
qed

text \<open>
  C8. When the read of a file throws, the loop appends one error item with the
  thrown message and goes on with the remaining files from a state that differs only
  by that item: the failure is a value of the result, not an exception.
\<close>
theorem read_failure_is_item:
  assumes "processedFiles st < MAX_FILES" and "readFile e fileUri = Inl err"
  shows "read_files e (fileUri # rest) st =
           read_files e rest (st\<lparr>contextItems := contextItems st @ [ReadError fileUri err]\<rparr>)
         \<and> (\<exists>later. contextItems (read_files e (fileUri # rest) st) =
                       contextItems st @ ReadError fileUri err # later)
         \<and> content (render e (ReadError fileUri err)) =
             lit ''[Error reading file: '' @ error_text err @ lit '']''"
proof -
  let ?st = "st\<lparr>contextItems := contextItems st @ [ReadError fileUri err]\<rparr>"
  have step: "read_files e (fileUri # rest) st = read_files e rest ?st"
    using assms by (simp add: push_def)
  obtain later where "contextItems (read_files e rest ?st) = contextItems ?st @ later"
    using read_files_extends [of e rest ?st] by blast
  then have "contextItems (read_files e (fileUri # rest) st) =
               contextItems st @ ReadError fileUri err # later"
    using step by simp
  then show ?thesis
    using step by auto
qed

theorem read_failure_is_item_witness:
  "processedFiles initial_state < MAX_FILES
   \<and> readFile (folder_env [gone_uri, ts_uri] [(ts_uri, lit ''ok'')]) gone_uri = Inl no_such_file
   \<and> read_files (folder_env [gone_uri, ts_uri] [(ts_uri, lit ''ok'')]) [gone_uri, ts_uri]
         initial_state
       = \<lparr>contextItems = [ReadError gone_uri no_such_file, FullFile ts_uri (lit ''ok'')],
          totalBytes = 2, processedFiles = 1\<rparr>
   \<and> content (render (folder_env [gone_uri, ts_uri] [(ts_uri, lit ''ok'')])
                (ReadError gone_uri no_such_file))
       = lit ''[Error reading file: ENOENT: no such file or directory]''"
proof -
  let ?e = "folder_env [gone_uri, ts_uri] [(ts_uri, lit ''ok'')]"
  have p: "processedFiles initial_state < MAX_FILES"
    by (simp add: initial_state_def MAX_FILES_def)
  have r: "readFile ?e gone_uri = Inl no_such_file"
    by (simp add: gone_uri_def ts_uri_def lit_def)
  have rest: "read_files ?e [ts_uri]
                (initial_state\<lparr>contextItems :=
                   contextItems initial_state @ [ReadError gone_uri no_such_file]\<rparr>)
              = \<lparr>contextItems = [ReadError gone_uri no_such_file, FullFile ts_uri (lit ''ok'')],
                 totalBytes = 2, processedFiles = 1\<rparr>"
    by (simp add: initial_state_def push_def MAX_FILES_def MAX_BYTES_PER_FILE_def
          MAX_TOTAL_BYTES_def lit_def bmp_bytes_def is_high_surrogate_def)
  show ?thesis
    using read_failure_is_item [OF p r, of "[ts_uri]"] p r rest
    by (simp add: no_such_file_def lit_def)
qed

text \<open>
  C10. The summary put in front is built from the two counters of the loop, and
  they are: the number of full and truncated items, and the sum of the sizes of the
  files included in full. Its text gives the count and that sum in kilobytes,
  rounded. A truncated file leaves \<open>totalBytes\<close> as it is and adds one to
  \<open>processedFiles\<close>; a file whose read throws leaves both as they are.
\<close>
theorem summary_counts_full_files:
  "(query \<noteq> [] \<and> walkDir e query = Inr fileUris \<and> filterFiles e fileUris \<noteq> [] \<longrightarrow>
      getContextItems_emitted e query =
        FolderSummary query
          (content_count (contextItems (read_files e (filterFiles e fileUris) initial_state)))
          (full_total (contextItems (read_files e (filterFiles e fileUris) initial_state)))
        # contextItems (read_files e (filterFiles e fileUris) initial_state))
   \<and> content (render e (FolderSummary query processed bytes)) =
       lit (''Loaded '' @ decimal processed @ '' files (''
            @ decimal (Math_round_div bytes 1024)
            @ ''KB total) from the selected folder.'')
   \<and> (processedFiles st < MAX_FILES \<and> readFile e fileUri = Inr body
        \<and> blob_size body > MAX_BYTES_PER_FILE \<longrightarrow>
        read_files e (fileUri # rest) st =
          read_files e rest
            (st\<lparr>contextItems := contextItems st @ [Truncated fileUri body],
                processedFiles := processedFiles st + 1\<rparr>))
   \<and> (processedFiles st < MAX_FILES \<and> readFile e failedUri = Inl err \<longrightarrow>
        read_files e (failedUri # rest) st =
          read_files e rest
            (st\<lparr>contextItems := contextItems st @ [ReadError failedUri err]\<rparr>))"
proof -
  let ?st = "read_files e (filterFiles e fileUris) initial_state"
  have "getContextItems_emitted e query =
        FolderSummary query (content_count (contextItems ?st)) (full_total (contextItems ?st))
        # contextItems ?st"
    if "query \<noteq> []" "walkDir e query = Inr fileUris" "filterFiles e fileUris \<noteq> []"
    using getContextItems_emitted_loop [OF that]
          read_files_total_accounted [OF initial_total_accounted, of e "filterFiles e fileUris"]
          read_files_processed_accounted [OF initial_processed_accounted,
            of e "filterFiles e fileUris"]
    by simp
  then show ?thesis
    by (auto simp: push_def)
qed

theorem summary_counts_full_files_witness:
  "folder_uri \<noteq> []
   \<and> getContextItems_emitted
        (folder_env [gone_uri, cjk_uri, ts_uri] [(cjk_uri, cjk_text), (ts_uri, lit ''ok'')])
        folder_uri
       = [FolderSummary folder_uri 2 2, ReadError gone_uri no_such_file,
          Truncated cjk_uri cjk_text, FullFile ts_uri (lit ''ok'')]
   \<and> content (render
        (folder_env [gone_uri, cjk_uri, ts_uri] [(cjk_uri, cjk_text), (ts_uri, lit ''ok'')])
        (FolderSummary folder_uri 2 2))
       = lit ''Loaded 2 files (0KB total) from the selected folder.''
   \<and> MAX_BYTES_PER_FILE < blob_size cjk_text"
proof -
  let ?e = "folder_env [gone_uri, cjk_uri, ts_uri] [(cjk_uri, cjk_text), (ts_uri, lit ''ok'')]"
  have q: "folder_uri \<noteq> []"
    by (simp add: folder_uri_def lit_def)
  have big: "MAX_BYTES_PER_FILE < blob_size cjk_text"
    by (simp add: blob_size_cjk_text MAX_BYTES_PER_FILE_def)
  have cnt: "content_count [ReadError gone_uri no_such_file, Truncated cjk_uri cjk_text,
                            FullFile ts_uri (lit ''ok'')] = 2"
    by (simp add: content_count_def)
  have tot: "full_total [ReadError gone_uri no_such_file, Truncated cjk_uri cjk_text,
                         FullFile ts_uri (lit ''ok'')] = 2"
    by (simp add: full_total_def lit_def bmp_bytes_def is_high_surrogate_def)
  have two: "decimal 2 = ''2''" "decimal (Math_round_div 2 1024) = ''0''"
    by (simp_all add: decimal.simps Math_round_div_def)
  have walk: "walkDir ?e folder_uri = Inr [gone_uri, cjk_uri, ts_uri]"
    by simp
  have kept: "filterFiles ?e [gone_uri, cjk_uri, ts_uri] \<noteq> []"
    by (simp add: mixed_folder_kept)
  note inst = summary_counts_full_files
                [of folder_uri ?e "[gone_uri, cjk_uri, ts_uri]" 2 2 initial_state cjk_uri
                    cjk_text "[ts_uri]" gone_uri no_such_file]
  from inst q walk kept have "getContextItems_emitted ?e folder_uri =
        FolderSummary folder_uri
          (content_count (contextItems
             (read_files ?e (filterFiles ?e [gone_uri, cjk_uri, ts_uri]) initial_state)))
          (full_total (contextItems
             (read_files ?e (filterFiles ?e [gone_uri, cjk_uri, ts_uri]) initial_state)))
        # contextItems
            (read_files ?e (filterFiles ?e [gone_uri, cjk_uri, ts_uri]) initial_state)"
    by blast
  then have emitted: "getContextItems_emitted ?e folder_uri
       = [FolderSummary folder_uri 2 2, ReadError gone_uri no_such_file,
          Truncated cjk_uri cjk_text, FullFile ts_uri (lit ''ok'')]"
    unfolding mixed_folder_kept mixed_folder_read by (simp add: cnt tot)
  from inst have "content (render ?e (FolderSummary folder_uri 2 2)) =
       lit (''Loaded '' @ decimal 2 @ '' files (''
            @ decimal (Math_round_div 2 1024)
            @ ''KB total) from the selected folder.'')"
    by blast
  then have summary: "content (render ?e (FolderSummary folder_uri 2 2))
       = lit ''Loaded 2 files (0KB total) from the selected folder.''"
    unfolding two by simp
  show ?thesis
    using q emitted summary big by blast
qed

text \<open>
  C2. After any number of files, \<open>totalBytes\<close> is the sum of the sizes of the
  files included in full and is at most the total cap, and the loop emits at most
  one size-limit marker. A file that the loop reaches below the file-count cap,
  that is read and is not larger than the per-file cap, and whose size would take
  the total over the cap, gets no item: the marker is appended and the loop stops
  there, whatever files follow. The three conditions are needed: the file count is
  checked before the read, and a file larger than the per-file cap is truncated
  before the total is looked at.
\<close>
theorem total_bytes_cap:
  "totalBytes (read_files e (take k files) initial_state) \<le> MAX_TOTAL_BYTES
   \<and> totalBytes (read_files e (take k files) initial_state)
       = full_total (contextItems (read_files e (take k files) initial_state))
   \<and> marker_count SizeLimitReached (contextItems (read_files e files initial_state)) \<le> 1
   \<and> (processedFiles st < MAX_FILES \<and> readFile e fileUri = Inr body
        \<and> blob_size body \<le> MAX_BYTES_PER_FILE
        \<and> MAX_TOTAL_BYTES < totalBytes st + blob_size body \<longrightarrow>
        read_files e (fileUri # rest) st =
          st\<lparr>contextItems := contextItems st @ [SizeLimitReached]\<rparr>)"
proof -
  have "totalBytes (read_files e (take k files) initial_state) \<le> MAX_TOTAL_BYTES"
    by (rule read_files_total_capped) (simp add: initial_state_def)
  moreover have "totalBytes (read_files e (take k files) initial_state)
       = full_total (contextItems (read_files e (take k files) initial_state))"
    by (rule read_files_total_accounted [OF initial_total_accounted])
  moreover have "marker_count SizeLimitReached
                   (contextItems (read_files e files initial_state)) \<le> 1"
    using read_files_size_limit_once [of e files initial_state]
    by (simp add: initial_state_def marker_count_def)
  moreover have "read_files e (fileUri # rest) st =
          st\<lparr>contextItems := contextItems st @ [SizeLimitReached]\<rparr>"
    if "processedFiles st < MAX_FILES" "readFile e fileUri = Inr body"
       "blob_size body \<le> MAX_BYTES_PER_FILE"
       "MAX_TOTAL_BYTES < totalBytes st + blob_size body"
    using that by (simp add: push_def)
  ultimately show ?thesis by blast
qed

theorem total_bytes_cap_witness:
  "read_files (folder_env [] [(full_uri, full_text), (ts_uri, lit ''ok'')])
     (replicate 20 full_uri) initial_state = twenty_full
   \<and> processedFiles twenty_full < MAX_FILES
   \<and> readFile (folder_env [] [(full_uri, full_text), (ts_uri, lit ''ok'')]) ts_uri
       = Inr (lit ''ok'')
   \<and> blob_size (lit ''ok'') \<le> MAX_BYTES_PER_FILE
   \<and> MAX_TOTAL_BYTES < totalBytes twenty_full + blob_size (lit ''ok'')
   \<and> read_files (folder_env [] [(full_uri, full_text), (ts_uri, lit ''ok'')])
        [ts_uri, full_uri] twenty_full
       = twenty_full\<lparr>contextItems := contextItems twenty_full @ [SizeLimitReached]\<rparr>"
proof -
  let ?e = "folder_env [] [(full_uri, full_text), (ts_uri, lit ''ok'')]"
  have p: "processedFiles twenty_full < MAX_FILES"
    by (simp add: twenty_full_def MAX_FILES_def)
  have r: "readFile ?e ts_uri = Inr (lit ''ok'')"
    by (simp add: ts_uri_def full_uri_def lit_def)
  have s: "blob_size (lit ''ok'') \<le> MAX_BYTES_PER_FILE"
    by (simp add: blob_size_ok MAX_BYTES_PER_FILE_def)
  have t: "MAX_TOTAL_BYTES < totalBytes twenty_full + blob_size (lit ''ok'')"
    by (simp add: blob_size_ok twenty_full_def MAX_TOTAL_BYTES_def)
  from total_bytes_cap [of ?e 0 "[]" twenty_full ts_uri "lit ''ok''" "[full_uri]"]
       p r s t
  have "read_files ?e [ts_uri, full_uri] twenty_full
          = twenty_full\<lparr>contextItems := contextItems twenty_full @ [SizeLimitReached]\<rparr>"
    by blast
  then show ?thesis
    using twenty_full_reached p r s t by blast
qed

text \<open>
  One file of 2000001 bytes followed by a small one: the first would take the total
  over the cap, but it is truncated and counted, no marker is emitted, and the
  second file is read.
\<close>
theorem oversize_file_not_excluded:
  "readFile (folder_env [] [(huge_uri, huge_text), (ts_uri, lit ''ok'')]) huge_uri
     = Inr huge_text
   \<and> MAX_TOTAL_BYTES < totalBytes initial_state + blob_size huge_text
   \<and> read_files (folder_env [] [(huge_uri, huge_text), (ts_uri, lit ''ok'')])
        [huge_uri, ts_uri] initial_state
       = \<lparr>contextItems = [Truncated huge_uri huge_text, FullFile ts_uri (lit ''ok'')],
          totalBytes = 2, processedFiles = 2\<rparr>"
proof -
  have ne: "huge_uri \<noteq> ts_uri"
    by (simp add: huge_uri_def ts_uri_def lit_def)
  show ?thesis
    using ne
    by (simp add: initial_state_def push_def MAX_FILES_def MAX_BYTES_PER_FILE_def
          MAX_TOTAL_BYTES_def blob_size_huge_text blob_size_ok)
qed

text \<open>
  C3. For every list of files the provider emits at most \<open>MAX_FILES\<close> items with
  a file's text (full or truncated) and at most one files-limit marker. It emits
  exactly one marker if and only if some file of the filtered list is reached after
  \<open>MAX_FILES\<close> of the files before it have been processed (read, and given a full
  or a truncated item) and those of them not larger than the per-file cap fit the
  total cap together; such a list is longer than \<open>MAX_FILES\<close>. The length of
  the list alone does not give the marker: a file whose read throws is not counted,
  and the size-limit marker ends the loop first.
\<close>
theorem files_limit_marker:
  assumes "query \<noteq> []" and "walkDir e query = Inr fileUris"
  shows "content_count (getContextItems_emitted e query) \<le> MAX_FILES
   \<and> marker_count FilesLimitReached (getContextItems_emitted e query) \<le> 1
   \<and> ((marker_count FilesLimitReached (getContextItems_emitted e query) = 1) \<longleftrightarrow>
        (\<exists>k<length (filterFiles e fileUris).
           content_count (map (emit_for e) (take k (filterFiles e fileUris))) = MAX_FILES
           \<and> full_total (map (emit_for e) (take k (filterFiles e fileUris)))
                \<le> MAX_TOTAL_BYTES))"
proof -
  have "content_count (getContextItems_emitted e query) \<le> MAX_FILES"
    unfolding emitted_content_count [OF assms] by (rule loop_content_capped)
  moreover have "marker_count FilesLimitReached (getContextItems_emitted e query) \<le> 1"
    unfolding emitted_marker_count [OF assms] by (rule loop_files_limit_once)
  moreover have "(marker_count FilesLimitReached (getContextItems_emitted e query) = 1) \<longleftrightarrow>
        (\<exists>k<length (filterFiles e fileUris).
           content_count (map (emit_for e) (take k (filterFiles e fileUris))) = MAX_FILES
           \<and> full_total (map (emit_for e) (take k (filterFiles e fileUris)))
                \<le> MAX_TOTAL_BYTES)"
    unfolding emitted_marker_count [OF assms] by (rule loop_files_limit_iff)
  ultimately show ?thesis by blast
qed

theorem files_limit_marker_witness:
  "folder_uri \<noteq> []
   \<and> walkDir (folder_env late_listing [(ts_uri, lit ''ok'')]) folder_uri = Inr late_listing
   \<and> filterFiles (folder_env late_listing [(ts_uri, lit ''ok'')]) late_listing = late_listing
   \<and> readFile (folder_env late_listing [(ts_uri, lit ''ok'')]) gone_uri = Inl no_such_file
   \<and> 51 < length late_listing
   \<and> content_count (map (emit_for (folder_env late_listing [(ts_uri, lit ''ok'')]))
                      (take 51 late_listing)) = MAX_FILES
   \<and> full_total (map (emit_for (folder_env late_listing [(ts_uri, lit ''ok'')]))
                    (take 51 late_listing)) \<le> MAX_TOTAL_BYTES
   \<and> content_count
        (getContextItems_emitted (folder_env late_listing [(ts_uri, lit ''ok'')]) folder_uri)
       \<le> MAX_FILES
   \<and> marker_count FilesLimitReached
        (getContextItems_emitted (folder_env late_listing [(ts_uri, lit ''ok'')]) folder_uri)
       = 1"
proof -
  let ?e = "folder_env late_listing [(ts_uri, lit ''ok'')]"
  have q: "folder_uri \<noteq> []"
    by (simp add: folder_uri_def lit_def)
  have w: "walkDir ?e folder_uri = Inr late_listing"
    by simp
  have g: "readFile ?e gone_uri = Inl no_such_file"
    by (simp add: gone_uri_def ts_uri_def lit_def)
  have len: "51 < length late_listing"
    by (simp add: late_listing_def)
  have "\<exists>k<length (filterFiles ?e late_listing).
          content_count (map (emit_for ?e) (take k (filterFiles ?e late_listing))) = MAX_FILES
          \<and> full_total (map (emit_for ?e) (take k (filterFiles ?e late_listing)))
               \<le> MAX_TOTAL_BYTES"
    unfolding late_listing_kept using len late_listing_fifty by blast
  with files_limit_marker [OF q w]
  have "content_count (getContextItems_emitted ?e folder_uri) \<le> MAX_FILES
        \<and> marker_count FilesLimitReached (getContextItems_emitted ?e folder_uri) = 1"
    by blast
  then show ?thesis
    using q w g len late_listing_kept late_listing_fifty by blast
qed

text \<open>
  Fifty-one eligible files, none of which can be read: fifty-one error items after
  the summary, and no files-limit marker.
\<close>
theorem unreadable_files_no_limit_marker:
  "walkDir (folder_env (replicate 51 ts_uri) []) folder_uri = Inr (replicate 51 ts_uri)
   \<and> filterFiles (folder_env (replicate 51 ts_uri) []) (replicate 51 ts_uri)
       = replicate 51 ts_uri
   \<and> MAX_FILES < length (replicate 51 ts_uri)
   \<and> getContextItems_emitted (folder_env (replicate 51 ts_uri) []) folder_uri
       = FolderSummary folder_uri 0 0 # replicate 51 (ReadError ts_uri no_such_file)
   \<and> marker_count FilesLimitReached
        (getContextItems_emitted (folder_env (replicate 51 ts_uri) []) folder_uri) = 0"
proof -
  let ?e = "folder_env (replicate 51 ts_uri) []"
  have q: "folder_uri \<noteq> []"
    by (simp add: folder_uri_def lit_def)
  have w: "walkDir ?e folder_uri = Inr (replicate 51 ts_uri)"
    by simp
  have k: "filterFiles ?e (replicate 51 ts_uri) = replicate 51 ts_uri"
    by (simp add: filterFiles_def ts_kept)
  have ne: "filterFiles ?e (replicate 51 ts_uri) \<noteq> []"
    unfolding k by simp
  have run: "read_files ?e (replicate 51 ts_uri) initial_state =
        initial_state\<lparr>contextItems := contextItems initial_state
                        @ map (\<lambda>f. ReadError f no_such_file) (replicate 51 ts_uri)\<rparr>"
    by (rule read_files_all_fail) (simp_all add: initial_state_def MAX_FILES_def)
  have out: "getContextItems_emitted ?e folder_uri
       = FolderSummary folder_uri 0 0 # replicate 51 (ReadError ts_uri no_such_file)"
    unfolding getContextItems_emitted_loop [OF q w ne] k run
    by (simp add: initial_state_def)
  have "marker_count FilesLimitReached
          (FolderSummary folder_uri 0 0 # replicate 51 (ReadError ts_uri no_such_file)) = 0"
    by (simp add: marker_count_def)
  then show ?thesis
    using w k out by (simp add: MAX_FILES_def)
qed

text \<open>
  C4. A file larger than the per-file cap gets one truncated item and is counted as
  processed; the claim adds that the content of the item is exactly the cap plus
  the notice, never more. The code measures the file in bytes of UTF-8 and cuts it
  with \<open>substring\<close>, which counts UTF-16 code units. On a file of 40000 copies of
  U+4E2D (120000 bytes) nothing is cut: the item holds the whole file and the
  notice, 40039 code units and 120039 bytes, where the cap and the notice make
  100039.
\<close>
theorem multibyte_file_not_cut:
  "MAX_BYTES_PER_FILE < blob_size cjk_text
   \<and> read_files (folder_env [cjk_uri] [(cjk_uri, cjk_text)]) [cjk_uri] initial_state
       = \<lparr>contextItems = [Truncated cjk_uri cjk_text], totalBytes = 0, processedFiles = 1\<rparr>
   \<and> content (render (folder_env [cjk_uri] [(cjk_uri, cjk_text)]) (Truncated cjk_uri cjk_text))
       = cjk_text @ truncation_notice
   \<and> length (content (render (folder_env [cjk_uri] [(cjk_uri, cjk_text)])
                (Truncated cjk_uri cjk_text))) = 40039
   \<and> blob_size (content (render (folder_env [cjk_uri] [(cjk_uri, cjk_text)])
                   (Truncated cjk_uri cjk_text))) = 120039
   \<and> MAX_BYTES_PER_FILE + length truncation_notice = 100039"
proof -
  have big: "MAX_BYTES_PER_FILE < blob_size cjk_text"
    by (simp add: blob_size_cjk_text MAX_BYTES_PER_FILE_def)
  have run: "read_files (folder_env [cjk_uri] [(cjk_uri, cjk_text)]) [cjk_uri] initial_state
       = \<lparr>contextItems = [Truncated cjk_uri cjk_text], totalBytes = 0, processedFiles = 1\<rparr>"
    using big by (simp add: initial_state_def push_def MAX_FILES_def)
  have whole: "substring_to cjk_text MAX_BYTES_PER_FILE = cjk_text"
    by (simp add: substring_to_def cjk_text_def MAX_BYTES_PER_FILE_def)
  have item: "content (render (folder_env [cjk_uri] [(cjk_uri, cjk_text)])
                (Truncated cjk_uri cjk_text)) = cjk_text @ truncation_notice"
    by (simp add: whole)
  have len: "length (cjk_text @ truncation_notice) = 40039"
    by (simp add: length_truncation_notice cjk_text_def)
  have bytes: "blob_size (cjk_text @ truncation_notice) = 120039"
    using blob_size_replicate [of "0x4E2D" 40000 truncation_notice]
    by (simp add: cjk_text_def is_high_surrogate_def bmp_bytes_def blob_size_truncation_notice)
  have cap: "MAX_BYTES_PER_FILE + length truncation_notice = 100039"
    by (simp add: length_truncation_notice MAX_BYTES_PER_FILE_def)
  show ?thesis
    unfolding item using big run len bytes cap by blast
qed

section \<open>Claims about the KvCache build thunk\<close>

lemma kv_env_sel [simp]:
  "resolveEditorContent (kv_env answer flag) ed mo dc sc store =
     Inr \<lparr>selectedContextItems = [], selectedCode = [], resolved_content = ed\<rparr>"
  "uuidv4 (kv_env answer flag) = lit ''0b5e''"
  "getBaseSystemMessage (kv_env answer flag) mode model tools = lit ''system''"
  "constructMessages (kv_env answer flag) h sys rules settings =
     JsString sys # map (\<lambda>entry. msg_content (message entry)) h"
  "compileChat (kv_env answer flag) messages = answer"
  "llmStreamChat (kv_env answer flag) request k = NextUnit (JsNumber (int k))"
  "isStreaming (kv_env answer flag) = flag"
  by (simp_all add: kv_env_def)

lemma kv_state_sel [simp]:
  "session_history (kv_state h) = h"
  "session_mode (kv_state h) = JsString (lit ''chat'')"
  "session_id (kv_state h) = lit ''s1''"
  "session_streamAborter (kv_state h) = JsNull"
  "config_defaultContext (kv_state h) = JsArray []"
  "config_slashCommands (kv_state h) = JsArray []"
  "config_rules (kv_state h) = JsArray []"
  "ui_ruleSettings (kv_state h) = JsObject []"
  "selectedChatModel (kv_state h) = Some kv_model"
  "kv_state h\<lparr>session_history := h'\<rparr> = kv_state h'"
  by (simp_all add: kv_state_def)

lemma kv_prepare:
  "prepare (kv_env answer flag) (kv_state h) kv_prompt JsNull =
     Inr ([SubmitEditorAndInitAtIndex (length h) kv_prompt,
           ResetNextCodeBlockToApplyIndex,
           UpdateFileSymbolsFromFiles [],
           UpdateHistoryItemAtIndex (length h)
             (UserTurnUpdates \<lparr>msg_role = RoleUser, msg_content = kv_prompt\<rparr>
                (lit ''0b5e'') [] True),
           UpdateHistoryItemAtIndex (length h + 1) (HiddenUpdates True),
           SetActive,
           SetInlineErrorMessage None,
           RequestCompileChat [JsString (lit ''system''), kv_prompt]],
          kv_model, [JsString (lit ''system''), kv_prompt])"
  by (simp add: prepare_def minimalHistory_def filesForSymbols_def Let_def)

lemma consume_sends_nothing:
  "consume flag gen polls calls nxt done_effects = Some y \<Longrightarrow>
   filter is_compile_request (snd y) = filter is_compile_request done_effects"
proof (induction rule: consume.raw_induct [rotated 1, consumes 1])
  case (1 consume' flag gen polls calls nxt done_effects y)
  show ?case
  proof (cases nxt)
    case (NextUnit chunk)
    show ?thesis
    proof (cases "flag polls")
      case True
      with 1(2) NextUnit have "consume' flag gen (polls + 1) (calls + 1) (gen calls)
              (done_effects @ [StreamUpdate chunk, GenNext]) = Some y"
        by simp
      from 1(1) [OF this] show ?thesis by simp
    next
      case False
      with 1(2) NextUnit show ?thesis by auto
    qed
  next
    case (NextDone log)
    with 1(2) show ?thesis by auto
  next
    case (NextThrows err)
    with 1(2) show ?thesis by auto
  qed
qed

lemma finish_sends_nothing:
  "filter is_compile_request (fst (finish state model y)) = filter is_compile_request (snd y)"
  by (cases y) (auto simp: finish_def split: next_result.splits option.splits)

lemma thunk_one_request:
  assumes "prepare env state editorState modifiers = Inr (prepared, model, messages)"
    and "filter is_compile_request prepared = [RequestCompileChat messages]"
    and "streamBuildKvCache env state editorState modifiers = Some (effects, out)"
  shows "filter is_compile_request effects = [RequestCompileChat messages]"
proof (cases "compileChat env messages")
  case (CompileError err)
  then show ?thesis
    using assms by (auto simp: streamBuildKvCache_def split: if_splits)
next
  case (CompileSuccess compiled)
  let ?request = "\<lparr>req_title = title model,
                      req_messages = compiledChatMessages compiled,
                      req_precompiled = True,
                      req_signal = session_streamAborter state\<rparr>"
  let ?before = "prepared
                 @ [SetIsPruned (didPrune compiled),
                    SetContextPercentage (contextPercentage compiled),
                    LlmStreamChat ?request,
                    GenNext]"
  from assms(1,3) CompileSuccess obtain y where
    run: "consume (isStreaming env) (llmStreamChat env ?request) 0 1
            (llmStreamChat env ?request 0) ?before = Some y"
    and fin: "finish state model y = (effects, out)"
    by (auto simp: streamBuildKvCache_def Let_def)
  have "filter is_compile_request effects = filter is_compile_request (snd y)"
    using finish_sends_nothing [of state model y] fin by simp
  also have "\<dots> = filter is_compile_request ?before"
    by (rule consume_sends_nothing [OF run])
  finally show ?thesis
    using assms(2) by simp
qed

text \<open>
  C5. When the compilation answers with an error whose text includes
  \<open>Not enough context\<close>, the function handed to \<open>streamThunkWrapper\<close> sets the
  inline error \<open>out-of-context\<close>, sets the session inactive and returns; for every
  other error answer it throws an \<open>Error\<close> with that text and dispatches nothing
  more.
\<close>
theorem compile_error_outcomes:
  assumes "prepare env state editorState modifiers = Inr (prepared, model, messages)"
    and "compileChat env messages = CompileError err"
  shows "streamBuildKvCache env state editorState modifiers =
         (if string_includes err (lit ''Not enough context'')
          then Some (prepared
                     @ [SetInlineErrorMessage (Some (lit ''out-of-context'')), SetInactive],
                     Returned)
          else Some (prepared, Threw (ErrorObject err)))"
  using assms by (simp add: streamBuildKvCache_def)

lemma not_enough_context_found:
  "string_includes (lit ''Not enough context for this request'') (lit ''Not enough context'')"
  by (simp add: lit_def)

lemma not_enough_context_absent:
  "\<not> string_includes (lit ''Connection refused'') (lit ''Not enough context'')"
  by (simp add: lit_def)

theorem compile_error_outcomes_witness:
  "(\<exists>prepared.
      prepare (kv_env (CompileError (lit ''Not enough context for this request'')) (\<lambda>k. True))
        (kv_state []) kv_prompt JsNull
        = Inr (prepared, kv_model, [JsString (lit ''system''), kv_prompt])
      \<and> streamBuildKvCache
          (kv_env (CompileError (lit ''Not enough context for this request'')) (\<lambda>k. True))
          (kv_state []) kv_prompt JsNull
        = Some (prepared
                @ [SetInlineErrorMessage (Some (lit ''out-of-context'')), SetInactive],
                Returned))
   \<and> (\<exists>prepared.
      prepare (kv_env (CompileError (lit ''Connection refused'')) (\<lambda>k. True))
        (kv_state []) kv_prompt JsNull
        = Inr (prepared, kv_model, [JsString (lit ''system''), kv_prompt])
      \<and> streamBuildKvCache (kv_env (CompileError (lit ''Connection refused'')) (\<lambda>k. True))
          (kv_state []) kv_prompt JsNull
        = Some (prepared, Threw (ErrorObject (lit ''Connection refused''))))"
proof -
  let ?e1 = "kv_env (CompileError (lit ''Not enough context for this request'')) (\<lambda>k. True)"
  let ?e2 = "kv_env (CompileError (lit ''Connection refused'')) (\<lambda>k. True)"
  have c1: "compileChat ?e1 [JsString (lit ''system''), kv_prompt]
              = CompileError (lit ''Not enough context for this request'')"
    by simp
  have c2: "compileChat ?e2 [JsString (lit ''system''), kv_prompt]
              = CompileError (lit ''Connection refused'')"
    by simp
  show ?thesis
    using compile_error_outcomes [OF kv_prepare c1] compile_error_outcomes [OF kv_prepare c2]
          kv_prepare [of "CompileError (lit ''Not enough context for this request'')"
                         "\<lambda>k. True" "[]"]
          kv_prepare [of "CompileError (lit ''Connection refused'')" "\<lambda>k. True" "[]"]
          not_enough_context_found not_enough_context_absent
    by simp
qed

lemma consume_until_cleared:
  assumes "\<forall>i<k. flag (j + i)" and "\<not> flag (j + k)"
    and "\<forall>i\<le>k. gen (j + i) = NextUnit (chunks (j + i))"
  shows "consume flag gen j (j + 1) (gen j) done_effects =
         Some (NextUnit (chunks (j + k)),
               done_effects
               @ concat (map (\<lambda>i. [StreamUpdate (chunks i), GenNext]) [j..<j + k])
               @ [AbortStream])"
  using assms
proof (induction k arbitrary: j done_effects)
  case 0
  then show ?case
    by (subst consume.simps) simp
next
  case (Suc k)
  have here: "gen j = NextUnit (chunks j)" "flag j"
    using Suc.prems(3) [rule_format, of 0] Suc.prems(1) [rule_format, of 0] by simp_all
  have later: "consume flag gen (Suc j) (Suc j + 1) (gen (Suc j))
                 (done_effects @ [StreamUpdate (chunks j), GenNext]) =
               Some (NextUnit (chunks (Suc j + k)),
                     (done_effects @ [StreamUpdate (chunks j), GenNext])
                     @ concat (map (\<lambda>i. [StreamUpdate (chunks i), GenNext]) [Suc j..<Suc j + k])
                     @ [AbortStream])"
  proof (rule Suc.IH)
    show "\<forall>i<k. flag (Suc j + i)"
      using Suc.prems(1) by (metis Suc_less_eq add_Suc_right add_Suc)
    show "\<not> flag (Suc j + k)"
      using Suc.prems(2) by simp
    show "\<forall>i\<le>k. gen (Suc j + i) = NextUnit (chunks (Suc j + i))"
      using Suc.prems(3) by (metis Suc_le_mono add_Suc_right add_Suc)
  qed
  have "consume flag gen j (j + 1) (gen j) done_effects =
        consume flag gen (Suc j) (Suc j + 1) (gen (Suc j))
          (done_effects @ [StreamUpdate (chunks j), GenNext])"
    by (subst consume.simps) (simp add: here)
  also note later
  finally have run: "consume flag gen j (j + 1) (gen j) done_effects =
        Some (NextUnit (chunks (Suc j + k)),
              (done_effects @ [StreamUpdate (chunks j), GenNext])
              @ concat (map (\<lambda>i. [StreamUpdate (chunks i), GenNext]) [Suc j..<Suc j + k])
              @ [AbortStream])" .
  have split: "[j..<j + Suc k] = j # [Suc j..<Suc j + k]"
    by (simp add: upt_conv_Cons del: upt_Suc)
  show ?case
    unfolding split run by simp
qed

text \<open>
  C6. Let the first \<open>k\<close> reads of the flag be true and the next one false, and
  let the response give a unit at each of its first \<open>k + 1\<close> steps. Then the thunk
  relays the first \<open>k\<close> units, dispatches \<open>abortStream\<close> and \<open>setInactive\<close> and
  returns: the unit that arrived after the flag was cleared is not relayed, and
  \<open>gen.next()\<close> is not called again, whatever the response would still give.
\<close>
theorem cancel_stops_stream:
  assumes "prepare env state editorState modifiers = Inr (prepared, model, messages)"
    and "compileChat env messages = CompileSuccess compiled"
    and "request = \<lparr>req_title = title model,
                     req_messages = compiledChatMessages compiled,
                     req_precompiled = True,
                     req_signal = session_streamAborter state\<rparr>"
    and "\<forall>i\<le>k. llmStreamChat env request i = NextUnit (chunks i)"
    and "\<forall>i<k. isStreaming env i" and "\<not> isStreaming env k"
  shows "streamBuildKvCache env state editorState modifiers =
         Some (prepared
               @ [SetIsPruned (didPrune compiled),
                  SetContextPercentage (contextPercentage compiled),
                  LlmStreamChat request,
                  GenNext]
               @ concat (map (\<lambda>i. [StreamUpdate (chunks i), GenNext]) [0..<k])
               @ [AbortStream, SetInactive],
               Returned)"
proof -
  let ?before = "prepared
                 @ [SetIsPruned (didPrune compiled),
                    SetContextPercentage (contextPercentage compiled),
                    LlmStreamChat request,
                    GenNext]"
  have "consume (isStreaming env) (llmStreamChat env request) 0 (0 + 1)
          (llmStreamChat env request 0) ?before =
        Some (NextUnit (chunks (0 + k)),
              ?before
              @ concat (map (\<lambda>i. [StreamUpdate (chunks i), GenNext]) [0..<0 + k])
              @ [AbortStream])"
    using assms(4-6) by (intro consume_until_cleared) simp_all
  then show ?thesis
    using assms(1-3) by (simp add: streamBuildKvCache_def Let_def finish_def)
qed

theorem cancel_stops_stream_witness:
  "compileChat (kv_env (CompileSuccess kv_compiled) (\<lambda>i. i < 2))
       [JsString (lit ''system''), kv_prompt] = CompileSuccess kv_compiled
   \<and> llmStreamChat (kv_env (CompileSuccess kv_compiled) (\<lambda>i. i < 2)) kv_request 0
       = NextUnit (JsNumber 0)
   \<and> llmStreamChat (kv_env (CompileSuccess kv_compiled) (\<lambda>i. i < 2)) kv_request 1
       = NextUnit (JsNumber 1)
   \<and> llmStreamChat (kv_env (CompileSuccess kv_compiled) (\<lambda>i. i < 2)) kv_request 2
       = NextUnit (JsNumber 2)
   \<and> isStreaming (kv_env (CompileSuccess kv_compiled) (\<lambda>i. i < 2)) 0
   \<and> isStreaming (kv_env (CompileSuccess kv_compiled) (\<lambda>i. i < 2)) 1
   \<and> \<not> isStreaming (kv_env (CompileSuccess kv_compiled) (\<lambda>i. i < 2)) 2
   \<and> streamBuildKvCache (kv_env (CompileSuccess kv_compiled) (\<lambda>i. i < 2))
         (kv_state []) kv_prompt JsNull
       = Some ([SubmitEditorAndInitAtIndex 0 kv_prompt,
                ResetNextCodeBlockToApplyIndex,
                UpdateFileSymbolsFromFiles [],
                UpdateHistoryItemAtIndex 0
                  (UserTurnUpdates \<lparr>msg_role = RoleUser, msg_content = kv_prompt\<rparr>
                     (lit ''0b5e'') [] True),
                UpdateHistoryItemAtIndex 1 (HiddenUpdates True),
                SetActive,
                SetInlineErrorMessage None,
                RequestCompileChat [JsString (lit ''system''), kv_prompt],
                SetIsPruned False,
                SetContextPercentage (JsNumber 0),
                LlmStreamChat kv_request,
                GenNext,
                StreamUpdate (JsNumber 0), GenNext,
                StreamUpdate (JsNumber 1), GenNext,
                AbortStream, SetInactive],
               Returned)"
proof -
  let ?env = "kv_env (CompileSuccess kv_compiled) (\<lambda>i. i < 2)"
  have c: "compileChat ?env [JsString (lit ''system''), kv_prompt] = CompileSuccess kv_compiled"
    by simp
  have req: "kv_request = \<lparr>req_title = title kv_model,
                     req_messages = compiledChatMessages kv_compiled,
                     req_precompiled = True,
                     req_signal = session_streamAborter (kv_state [])\<rparr>"
    by (simp add: kv_request_def kv_model_def kv_compiled_def)
  have units: "\<forall>i\<le>2. llmStreamChat ?env kv_request i = NextUnit (JsNumber (int i))"
    by simp
  have on: "\<forall>i<2. isStreaming ?env i"
    by simp
  have off: "\<not> isStreaming ?env 2"
    by simp
  have upt2: "[0..<2] = [0, Suc 0]"
    by (simp add: upt_rec)
  have "streamBuildKvCache ?env (kv_state []) kv_prompt JsNull =
         Some ([SubmitEditorAndInitAtIndex (length ([]::HistoryEntry list)) kv_prompt,
           ResetNextCodeBlockToApplyIndex,
           UpdateFileSymbolsFromFiles [],
           UpdateHistoryItemAtIndex (length ([]::HistoryEntry list))
             (UserTurnUpdates \<lparr>msg_role = RoleUser, msg_content = kv_prompt\<rparr>
                (lit ''0b5e'') [] True),
           UpdateHistoryItemAtIndex (length ([]::HistoryEntry list) + 1) (HiddenUpdates True),
           SetActive,
           SetInlineErrorMessage None,
           RequestCompileChat [JsString (lit ''system''), kv_prompt]]
               @ [SetIsPruned (didPrune kv_compiled),
                  SetContextPercentage (contextPercentage kv_compiled),
                  LlmStreamChat kv_request,
                  GenNext]
               @ concat (map (\<lambda>i. [StreamUpdate (JsNumber (int i)), GenNext]) [0..<2])
               @ [AbortStream, SetInactive],
               Returned)"
    by (rule cancel_stops_stream [OF kv_prepare c req units on off])
  then show ?thesis
    using c unfolding upt2 by (simp add: kv_compiled_def)
qed

lemma consume_extends:
  "consume flag gen polls calls nxt done_effects = Some y \<Longrightarrow> prefix done_effects (snd y)"
proof (induction rule: consume.raw_induct [rotated 1, consumes 1])
  case (1 consume' flag gen polls calls nxt done_effects y)
  show ?case
  proof (cases nxt)
    case (NextUnit chunk)
    show ?thesis
    proof (cases "flag polls")
      case True
      with 1(2) NextUnit have "consume' flag gen (polls + 1) (calls + 1) (gen calls)
              (done_effects @ [StreamUpdate chunk, GenNext]) = Some y"
        by simp
      from 1(1) [OF this] show ?thesis
        by (rule append_prefixD)
    next
      case False
      with 1(2) NextUnit show ?thesis by auto
    qed
  next
    case (NextDone log)
    with 1(2) show ?thesis by auto
  next
    case (NextThrows err)
    with 1(2) show ?thesis by auto
  qed
qed

lemma finish_extends: "prefix (snd y) (fst (finish state model y))"
  by (cases y) (auto simp: finish_def split: next_result.splits option.splits)

lemma consume_returns:
  assumes "\<forall>i<k. flag (j + i) \<and> (\<exists>chunk. gen (j + i) = NextUnit chunk)"
    and "\<not> (flag (j + k) \<and> (\<exists>chunk. gen (j + k) = NextUnit chunk))"
  shows "consume flag gen j (j + 1) (gen j) done_effects \<noteq> None"
  using assms
proof (induction k arbitrary: j done_effects)
  case 0
  then show ?case
    by (subst consume.simps) (auto split: next_result.splits)
next
  case (Suc k)
  obtain chunk where here: "gen j = NextUnit chunk" "flag j"
    using Suc.prems(1) [rule_format, of 0] by auto
  have later: "consume flag gen (Suc j) (Suc j + 1) (gen (Suc j))
                 (done_effects @ [StreamUpdate chunk, GenNext]) \<noteq> None"
  proof (rule Suc.IH)
    show "\<forall>i<k. flag (Suc j + i) \<and> (\<exists>chunk. gen (Suc j + i) = NextUnit chunk)"
      using Suc.prems(1) by (metis Suc_less_eq add_Suc_right add_Suc)
    show "\<not> (flag (Suc j + k) \<and> (\<exists>chunk. gen (Suc j + k) = NextUnit chunk))"
      using Suc.prems(2) by simp
  qed
  have "consume flag gen j (j + 1) (gen j) done_effects =
        consume flag gen (Suc j) (Suc j + 1) (gen (Suc j))
          (done_effects @ [StreamUpdate chunk, GenNext])"
    by (subst consume.simps) (simp add: here)
  then show ?case
    using later by simp
qed

lemma consume_endless:
  assumes "consume flag gen 0 1 (gen 0) done_effects = None"
  shows "flag i \<and> (\<exists>chunk. gen i = NextUnit chunk)"
proof (rule ccontr)
  assume bad: "\<not> (flag i \<and> (\<exists>chunk. gen i = NextUnit chunk))"
  define k where "k = (LEAST i. \<not> (flag i \<and> (\<exists>chunk. gen i = NextUnit chunk)))"
  have least: "\<not> (flag k \<and> (\<exists>chunk. gen k = NextUnit chunk))"
    unfolding k_def using bad by (rule LeastI)
  have before: "\<forall>i<k. flag i \<and> (\<exists>chunk. gen i = NextUnit chunk)"
    unfolding k_def using not_less_Least by blast
  have "consume flag gen 0 (0 + 1) (gen 0) done_effects \<noteq> None"
    using before least by (intro consume_returns [of k flag 0 gen]) simp_all
  then show False
    using assms by simp
qed

lemma consume_never_ends:
  assumes "\<forall>i. flag i" and "\<forall>i. \<exists>chunk. gen i = NextUnit chunk"
  shows "consume flag gen polls calls (gen j) done_effects = None"
proof -
  have "False" if "consume flag gen polls calls nxt done_effects = Some y"
    "\<exists>chunk. nxt = NextUnit chunk" for nxt y
    using that assms
  proof (induction rule: consume.raw_induct [rotated 1, consumes 1])
    case (1 consume' flag gen polls calls nxt done_effects y)
    from 1(3) obtain chunk where unit: "nxt = NextUnit chunk" by blast
    from 1(2) unit 1(4) have "consume' flag gen (polls + 1) (calls + 1) (gen calls)
              (done_effects @ [StreamUpdate chunk, GenNext]) = Some y"
      by simp
    from 1(1) [OF this] 1(4,5) show ?case by blast
  qed
  from this [of "gen j"] assms(2) show ?thesis
    by (cases "consume flag gen polls calls (gen j) done_effects") blast+
qed

lemma thunk_extends_prepared:
  assumes "prepare env state editorState modifiers = Inr (prepared, model, messages)"
    and "streamBuildKvCache env state editorState modifiers = Some (effects, out)"
  shows "prefix prepared effects"
proof (cases "compileChat env messages")
  case (CompileError err)
  then show ?thesis
    using assms by (auto simp: streamBuildKvCache_def split: if_splits)
next
  case (CompileSuccess compiled)
  let ?request = "\<lparr>req_title = title model,
                      req_messages = compiledChatMessages compiled,
                      req_precompiled = True,
                      req_signal = session_streamAborter state\<rparr>"
  let ?before = "prepared
                 @ [SetIsPruned (didPrune compiled),
                    SetContextPercentage (contextPercentage compiled),
                    LlmStreamChat ?request,
                    GenNext]"
  from assms CompileSuccess obtain y where
    run: "consume (isStreaming env) (llmStreamChat env ?request) 0 1
            (llmStreamChat env ?request 0) ?before = Some y"
    and fin: "finish state model y = (effects, out)"
    by (auto simp: streamBuildKvCache_def Let_def)
  have "prefix prepared ?before"
    by simp
  also have "prefix ?before (snd y)"
    by (rule consume_extends [OF run])
  also have "prefix (snd y) effects"
    using finish_extends [of y state model] fin by simp
  finally show ?thesis .
qed

lemma thunk_endless:
  assumes "prepare env state editorState modifiers = Inr (prepared, model, messages)"
    and "streamBuildKvCache env state editorState modifiers = None"
  shows "\<exists>compiled. compileChat env messages = CompileSuccess compiled
           \<and> (\<forall>i. isStreaming env i
                    \<and> (\<exists>chunk. llmStreamChat env
                                  \<lparr>req_title = title model,
                                   req_messages = compiledChatMessages compiled,
                                   req_precompiled = True,
                                   req_signal = session_streamAborter state\<rparr> i
                                = NextUnit chunk))"
proof (cases "compileChat env messages")
  case (CompileError err)
  then show ?thesis
    using assms by (auto simp: streamBuildKvCache_def split: if_splits)
next
  case (CompileSuccess compiled)
  let ?request = "\<lparr>req_title = title model,
                      req_messages = compiledChatMessages compiled,
                      req_precompiled = True,
                      req_signal = session_streamAborter state\<rparr>"
  let ?before = "prepared
                 @ [SetIsPruned (didPrune compiled),
                    SetContextPercentage (contextPercentage compiled),
                    LlmStreamChat ?request,
                    GenNext]"
  have "consume (isStreaming env) (llmStreamChat env ?request) 0 1
          (llmStreamChat env ?request 0) ?before = None"
    using assms CompileSuccess by (simp add: streamBuildKvCache_def Let_def)
  then have "\<forall>i. isStreaming env i \<and> (\<exists>chunk. llmStreamChat env ?request i = NextUnit chunk)"
    using consume_endless by blast
  then show ?thesis
    using CompileSuccess by blast
qed

text \<open>
  C1. Let a model be selected and the editor content resolve, whatever the session
  history of the state is and whatever the resolver reads of it. Then the thunk
  dispatches its first actions and sends to the compilation the messages that
  \<open>constructMessages\<close> makes of a history of exactly one entry (the user turn
  with the resolved content and its context items) and the base system message;
  the session history is not handed over. Every run of the thunk that ends starts
  with these effects and has this request as its only compilation request. A run
  that does not end has had this request answered with success: the thunk fails to
  return only when the response gives a unit at every step and the flag is never
  read as cleared.
\<close>
theorem kv_build_messages_ignore_history:
  assumes "selectedChatModel state = Some model"
    and "resolveEditorContent env editorState modifiers
           (config_defaultContext state) (config_slashCommands state)
           (state\<lparr>session_history := history\<rparr>) = Inr r"
    and "messages =
           constructMessages env
             [\<lparr>message = \<lparr>msg_role = RoleUser, msg_content = resolved_content r\<rparr>,
               entry_contextItems = selectedContextItems r\<rparr>]
             (getBaseSystemMessage env (session_mode state) model [])
             (config_rules state) (ui_ruleSettings state)"
    and "prepared =
           [SubmitEditorAndInitAtIndex (length history) editorState,
            ResetNextCodeBlockToApplyIndex,
            UpdateFileSymbolsFromFiles (filesForSymbols r),
            UpdateHistoryItemAtIndex (length history)
              (UserTurnUpdates \<lparr>msg_role = RoleUser, msg_content = resolved_content r\<rparr>
                 (uuidv4 env) (selectedContextItems r) True),
            UpdateHistoryItemAtIndex (length history + 1) (HiddenUpdates True),
            SetActive,
            SetInlineErrorMessage None,
            RequestCompileChat messages]"
  shows "prepare env (state\<lparr>session_history := history\<rparr>) editorState modifiers
           = Inr (prepared, model, messages)
         \<and> (\<forall>effects out.
               streamBuildKvCache env (state\<lparr>session_history := history\<rparr>) editorState modifiers
                 = Some (effects, out) \<longrightarrow>
               prefix prepared effects
               \<and> filter is_compile_request effects = [RequestCompileChat messages])
         \<and> (streamBuildKvCache env (state\<lparr>session_history := history\<rparr>) editorState modifiers
               = None \<longrightarrow>
             (\<exists>compiled.
                compileChat env messages = CompileSuccess compiled
                \<and> (\<forall>i. isStreaming env i
                         \<and> (\<exists>chunk. llmStreamChat env
                                       \<lparr>req_title = title model,
                                        req_messages = compiledChatMessages compiled,
                                        req_precompiled = True,
                                        req_signal = session_streamAborter state\<rparr> i
                                     = NextUnit chunk))))"
proof -
  let ?state = "state\<lparr>session_history := history\<rparr>"
  have prep: "prepare env ?state editorState modifiers = Inr (prepared, model, messages)"
    using assms by (simp add: prepare_def minimalHistory_def Let_def)
  have one: "filter is_compile_request prepared = [RequestCompileChat messages]"
    using assms(4) by simp
  have "prefix prepared effects \<and> filter is_compile_request effects = [RequestCompileChat messages]"
    if "streamBuildKvCache env ?state editorState modifiers = Some (effects, out)"
    for effects out
    using thunk_extends_prepared [OF prep that] thunk_one_request [OF prep one that] by simp
  moreover have "\<exists>compiled.
                compileChat env messages = CompileSuccess compiled
                \<and> (\<forall>i. isStreaming env i
                         \<and> (\<exists>chunk. llmStreamChat env
                                       \<lparr>req_title = title model,
                                        req_messages = compiledChatMessages compiled,
                                        req_precompiled = True,
                                        req_signal = session_streamAborter state\<rparr> i
                                     = NextUnit chunk))"
    if "streamBuildKvCache env ?state editorState modifiers = None"
    using thunk_endless [OF prep that] by simp
  ultimately show ?thesis
    using prep by blast
qed

lemma thunk_cancelled:
  assumes "prepare env state editorState modifiers = Inr (prepared, model, messages)"
    and "compileChat env messages = CompileSuccess compiled"
    and "request = \<lparr>req_title = title model,
                     req_messages = compiledChatMessages compiled,
                     req_precompiled = True,
                     req_signal = session_streamAborter state\<rparr>"
    and "\<forall>i\<le>k. llmStreamChat env request i = NextUnit (chunks i)"
    and "\<forall>i<k. isStreaming env i" and "\<not> isStreaming env k"
  shows "streamBuildKvCache env state editorState modifiers =
         Some (prepared
               @ [SetIsPruned (didPrune compiled),
                  SetContextPercentage (contextPercentage compiled),
                  LlmStreamChat request,
                  GenNext]
               @ concat (map (\<lambda>i. [StreamUpdate (chunks i), GenNext]) [0..<k])
               @ [AbortStream, SetInactive],
               Returned)"
proof -
  let ?before = "prepared
                 @ [SetIsPruned (didPrune compiled),
                    SetContextPercentage (contextPercentage compiled),
                    LlmStreamChat request,
                    GenNext]"
  have "consume (isStreaming env) (llmStreamChat env request) 0 (0 + 1)
          (llmStreamChat env request 0) ?before =
        Some (NextUnit (chunks (0 + k)),
              ?before
              @ concat (map (\<lambda>i. [StreamUpdate (chunks i), GenNext]) [0..<0 + k])
              @ [AbortStream])"
    using assms(4-6) by (intro consume_until_cleared) simp_all
  then show ?thesis
    using assms(1-3) by (simp add: streamBuildKvCache_def Let_def finish_def)
qed

lemma thunk_never_returns:
  assumes "prepare env state editorState modifiers = Inr (prepared, model, messages)"
    and "compileChat env messages = CompileSuccess compiled"
    and "request = \<lparr>req_title = title model,
                     req_messages = compiledChatMessages compiled,
                     req_precompiled = True,
                     req_signal = session_streamAborter state\<rparr>"
    and "\<forall>i. isStreaming env i"
    and "\<forall>i. \<exists>chunk. llmStreamChat env request i = NextUnit chunk"
  shows "streamBuildKvCache env state editorState modifiers = None"
proof -
  have "consume (isStreaming env) (llmStreamChat env request) 0 1
          (llmStreamChat env request 0) done_effects = None" for done_effects
    using assms(4,5) by (rule consume_never_ends)
  then show ?thesis
    using assms(1-3) by (simp add: streamBuildKvCache_def Let_def)
qed

lemma kv_request_eq:
  "kv_request = \<lparr>req_title = title kv_model,
                  req_messages = compiledChatMessages kv_compiled,
                  req_precompiled = True,
                  req_signal = session_streamAborter (kv_state h)\<rparr>"
  by (simp add: kv_request_def kv_model_def kv_compiled_def)

lemma kv_cancelled_run:
  "streamBuildKvCache (kv_env (CompileSuccess kv_compiled) (\<lambda>i. i < 2))
     (kv_state h) kv_prompt JsNull
   = Some ([SubmitEditorAndInitAtIndex (length h) kv_prompt,
            ResetNextCodeBlockToApplyIndex,
            UpdateFileSymbolsFromFiles [],
            UpdateHistoryItemAtIndex (length h)
              (UserTurnUpdates \<lparr>msg_role = RoleUser, msg_content = kv_prompt\<rparr>
                 (lit ''0b5e'') [] True),
            UpdateHistoryItemAtIndex (length h + 1) (HiddenUpdates True),
            SetActive,
            SetInlineErrorMessage None,
            RequestCompileChat [JsString (lit ''system''), kv_prompt],
            SetIsPruned False,
            SetContextPercentage (JsNumber 0),
            LlmStreamChat kv_request,
            GenNext,
            StreamUpdate (JsNumber 0), GenNext,
            StreamUpdate (JsNumber 1), GenNext,
            AbortStream, SetInactive],
           Returned)"
proof -
  let ?env = "kv_env (CompileSuccess kv_compiled) (\<lambda>i. i < 2)"
  have c: "compileChat ?env [JsString (lit ''system''), kv_prompt] = CompileSuccess kv_compiled"
    by simp
  have units: "\<forall>i\<le>2. llmStreamChat ?env kv_request i = NextUnit (JsNumber (int i))"
    by simp
  have on: "\<forall>i<2. isStreaming ?env i"
    by simp
  have off: "\<not> isStreaming ?env 2"
    by simp
  have upt2: "[0..<2] = [0, Suc 0]"
    by (simp add: upt_rec)
  show ?thesis
    unfolding thunk_cancelled [OF kv_prepare c kv_request_eq units on off] upt2
    by (simp add: kv_compiled_def)
qed

lemma kv_endless_run:
  "streamBuildKvCache (kv_env (CompileSuccess kv_compiled) (\<lambda>i. True))
     (kv_state h) kv_prompt JsNull = None"
proof -
  let ?env = "kv_env (CompileSuccess kv_compiled) (\<lambda>i. True)"
  have c: "compileChat ?env [JsString (lit ''system''), kv_prompt] = CompileSuccess kv_compiled"
    by simp
  show ?thesis
    by (rule thunk_never_returns [OF kv_prepare c kv_request_eq]) simp_all
qed

theorem kv_build_messages_ignore_history_witness:
  "selectedChatModel (kv_state []) = Some kv_model
   \<and> resolveEditorContent (kv_env (CompileSuccess kv_compiled) (\<lambda>i. i < 2)) kv_prompt JsNull
        (config_defaultContext (kv_state [])) (config_slashCommands (kv_state []))
        (kv_state [earlier_turn, earlier_turn, earlier_turn])
       = Inr \<lparr>selectedContextItems = [], selectedCode = [], resolved_content = kv_prompt\<rparr>
   \<and> prepare (kv_env (CompileSuccess kv_compiled) (\<lambda>i. i < 2))
        (kv_state [earlier_turn, earlier_turn, earlier_turn]) kv_prompt JsNull
       = Inr ([SubmitEditorAndInitAtIndex 3 kv_prompt,
               ResetNextCodeBlockToApplyIndex,
               UpdateFileSymbolsFromFiles [],
               UpdateHistoryItemAtIndex 3
                 (UserTurnUpdates \<lparr>msg_role = RoleUser, msg_content = kv_prompt\<rparr>
                    (lit ''0b5e'') [] True),
               UpdateHistoryItemAtIndex 4 (HiddenUpdates True),
               SetActive,
               SetInlineErrorMessage None,
               RequestCompileChat [JsString (lit ''system''), kv_prompt]],
              kv_model, [JsString (lit ''system''), kv_prompt])
   \<and> streamBuildKvCache (kv_env (CompileSuccess kv_compiled) (\<lambda>i. i < 2))
        (kv_state [earlier_turn, earlier_turn, earlier_turn]) kv_prompt JsNull
       = Some ([SubmitEditorAndInitAtIndex 3 kv_prompt,
                ResetNextCodeBlockToApplyIndex,
                UpdateFileSymbolsFromFiles [],
                UpdateHistoryItemAtIndex 3
                  (UserTurnUpdates \<lparr>msg_role = RoleUser, msg_content = kv_prompt\<rparr>
                     (lit ''0b5e'') [] True),
                UpdateHistoryItemAtIndex 4 (HiddenUpdates True),
                SetActive,
                SetInlineErrorMessage None,
                RequestCompileChat [JsString (lit ''system''), kv_prompt],
                SetIsPruned False,
                SetContextPercentage (JsNumber 0),
                LlmStreamChat kv_request,
                GenNext,
                StreamUpdate (JsNumber 0), GenNext,
                StreamUpdate (JsNumber 1), GenNext,
                AbortStream, SetInactive],
               Returned)
   \<and> filter is_compile_request
        [SubmitEditorAndInitAtIndex 3 kv_prompt,
         ResetNextCodeBlockToApplyIndex,
         UpdateFileSymbolsFromFiles [],
         UpdateHistoryItemAtIndex 3
           (UserTurnUpdates \<lparr>msg_role = RoleUser, msg_content = kv_prompt\<rparr>
              (lit ''0b5e'') [] True),
         UpdateHistoryItemAtIndex 4 (HiddenUpdates True),
         SetActive,
         SetInlineErrorMessage None,
         RequestCompileChat [JsString (lit ''system''), kv_prompt],
         SetIsPruned False,
         SetContextPercentage (JsNumber 0),
         LlmStreamChat kv_request,
         GenNext,
         StreamUpdate (JsNumber 0), GenNext,
         StreamUpdate (JsNumber 1), GenNext,
         AbortStream, SetInactive]
       = [RequestCompileChat [JsString (lit ''system''), kv_prompt]]
   \<and> streamBuildKvCache (kv_env (CompileSuccess kv_compiled) (\<lambda>i. True))
        (kv_state [earlier_turn, earlier_turn, earlier_turn]) kv_prompt JsNull = None
   \<and> compileChat (kv_env (CompileSuccess kv_compiled) (\<lambda>i. True))
        [JsString (lit ''system''), kv_prompt] = CompileSuccess kv_compiled"
proof -
  let ?stop = "kv_env (CompileSuccess kv_compiled) (\<lambda>i. i < 2)"
  let ?go = "kv_env (CompileSuccess kv_compiled) (\<lambda>i. True)"
  let ?h = "[earlier_turn, earlier_turn, earlier_turn]"
  let ?r = "\<lparr>selectedContextItems = [], selectedCode = [], resolved_content = kv_prompt\<rparr>"
  let ?sent = "[JsString (lit ''system''), kv_prompt]"
  let ?prepared = "[SubmitEditorAndInitAtIndex (length ?h) kv_prompt,
            ResetNextCodeBlockToApplyIndex,
            UpdateFileSymbolsFromFiles (filesForSymbols ?r),
            UpdateHistoryItemAtIndex (length ?h)
              (UserTurnUpdates \<lparr>msg_role = RoleUser, msg_content = resolved_content ?r\<rparr>
                 (uuidv4 ?stop) (selectedContextItems ?r) True),
            UpdateHistoryItemAtIndex (length ?h + 1) (HiddenUpdates True),
            SetActive,
            SetInlineErrorMessage None,
            RequestCompileChat ?sent]"
  have m: "selectedChatModel (kv_state []) = Some kv_model"
    by simp
  have r1: "resolveEditorContent ?stop kv_prompt JsNull
             (config_defaultContext (kv_state [])) (config_slashCommands (kv_state []))
             (kv_state []\<lparr>session_history := ?h\<rparr>) = Inr ?r"
    by simp
  have r2: "resolveEditorContent ?go kv_prompt JsNull
             (config_defaultContext (kv_state [])) (config_slashCommands (kv_state []))
             (kv_state []\<lparr>session_history := ?h\<rparr>) = Inr ?r"
    by simp
  have s1: "?sent = constructMessages ?stop
             [\<lparr>message = \<lparr>msg_role = RoleUser, msg_content = resolved_content ?r\<rparr>,
               entry_contextItems = selectedContextItems ?r\<rparr>]
             (getBaseSystemMessage ?stop (session_mode (kv_state [])) kv_model [])
             (config_rules (kv_state [])) (ui_ruleSettings (kv_state []))"
    by simp
  have s2: "?sent = constructMessages ?go
             [\<lparr>message = \<lparr>msg_role = RoleUser, msg_content = resolved_content ?r\<rparr>,
               entry_contextItems = selectedContextItems ?r\<rparr>]
             (getBaseSystemMessage ?go (session_mode (kv_state [])) kv_model [])
             (config_rules (kv_state [])) (ui_ruleSettings (kv_state []))"
    by simp
  have p2: "?prepared = [SubmitEditorAndInitAtIndex (length ?h) kv_prompt,
            ResetNextCodeBlockToApplyIndex,
            UpdateFileSymbolsFromFiles (filesForSymbols ?r),
            UpdateHistoryItemAtIndex (length ?h)
              (UserTurnUpdates \<lparr>msg_role = RoleUser, msg_content = resolved_content ?r\<rparr>
                 (uuidv4 ?go) (selectedContextItems ?r) True),
            UpdateHistoryItemAtIndex (length ?h + 1) (HiddenUpdates True),
            SetActive,
            SetInlineErrorMessage None,
            RequestCompileChat ?sent]"
    by simp
  note stops = kv_build_messages_ignore_history [OF m r1 s1 refl]
  note goes = kv_build_messages_ignore_history [OF m r2 s2 p2]
  from stops kv_cancelled_run [of ?h]
  have a: "filter is_compile_request
             (fst (the (streamBuildKvCache ?stop (kv_state ?h) kv_prompt JsNull)))
           = [RequestCompileChat ?sent]"
    by simp
  from goes kv_endless_run [of ?h]
  have b: "compileChat ?go ?sent = CompileSuccess kv_compiled"
    by simp
  show ?thesis
    using m r1 kv_prepare [of "CompileSuccess kv_compiled" "\<lambda>i. i < 2" ?h]
          kv_cancelled_run [of ?h] kv_endless_run [of ?h] a b
    by (simp add: filesForSymbols_def)
qed

end
